theory Spec2Isabelle
  imports Main "HOL-Library.AList"
begin

section \<open>Data model of sweetnothings.go\<close>

text \<open>
  \<^verbatim>\<open>type SweetNothing struct { ID, Addr, Body string; Timestamp time.Time }\<close>.
  The instant of \<^verbatim>\<open>time.Time\<close> is kept as a natural number; no function of the
  program inspects it.
\<close>

record SweetNothing =
  ID :: string
  Addr :: string
  Body :: string
  Timestamp :: nat

text \<open>
  A Go channel of \<^verbatim>\<open>SweetNothing\<close>: \<open>capacity\<close> is the buffer size given to
  \<^verbatim>\<open>make\<close> (0 when omitted), \<open>queue\<close> holds the values sent and not yet taken
  by the receiver, \<open>parked\<close> says that a goroutine is blocked in a receive on the
  channel, \<open>closed\<close> that the channel was closed.
\<close>

record chan =
  capacity :: nat
  queue :: "SweetNothing list"
  parked :: bool
  closed :: bool

text \<open>\<^verbatim>\<open>make(chan SweetNothing)\<close>: no buffer size, hence capacity 0.\<close>

definition make_chan :: chan where
  "make_chan = \<lparr>capacity = 0, queue = [], parked = False, closed = False\<rparr>"

text \<open>
  The outcome of \<^verbatim>\<open>select { case ch <- v: default: }\<close> on one channel. A send on
  a closed channel panics; otherwise the send case is taken when a receiver is parked on
  the channel (the value is handed to it and it is woken) or the buffer has room, and the
  default case is taken in every other state.
\<close>

datatype attempt = Enqueued | Dropped | SendPanic

definition ready :: "chan \<Rightarrow> bool" where
  "ready c = (parked c \<or> length (queue c) < capacity c)"

definition trySend :: "SweetNothing \<Rightarrow> chan \<Rightarrow> attempt \<times> chan" where
  "trySend w c =
     (if closed c then (SendPanic, c)
      else if parked c then (Enqueued, c\<lparr>queue := queue c @ [w], parked := False\<rparr>)
      else if length (queue c) < capacity c then (Enqueued, c\<lparr>queue := queue c @ [w]\<rparr>)
      else (Dropped, c))"

text \<open>
  The receive of \<^verbatim>\<open>for s := range ch\<close>: a value that is there is taken; with none
  there the loop ends when the channel is closed and the goroutine parks otherwise.
\<close>

datatype recv = Got SweetNothing | RangeEnd | WouldBlock

definition chan_recv :: "chan \<Rightarrow> recv \<times> chan" where
  "chan_recv c =
     (case queue c of
        w # q \<Rightarrow> (Got w, c\<lparr>queue := q\<rparr>)
      | [] \<Rightarrow> if closed c then (RangeEnd, c) else (WouldBlock, c\<lparr>parked := True\<rparr>))"

text \<open>
  What a node does, in the order it happens: \<open>Status\<close>, \<open>LogLine\<close> and \<open>Display\<close>
  are the calls of \<^verbatim>\<open>statusLn\<close>, \<^verbatim>\<open>log.Printf\<close>/\<^verbatim>\<open>log.Println\<close> and the
  \<^verbatim>\<open>fmt.Printf\<close> of a received message (its label and its body; the colour codes of
  the console are left out), \<open>Broadcast\<close> a call of \<^verbatim>\<open>broadcast\<close>, \<open>Try\<close> one \<^verbatim>\<open>select\<close> on a
  channel with its outcome, \<open>Wrote\<close> a successful \<^verbatim>\<open>Encode\<close> on the connection to an
  address, \<open>ConnClosed\<close> a \<^verbatim>\<open>Close\<close>, \<open>GoDial\<close> and \<open>GoServe\<close> the goroutines
  started by \<^verbatim>\<open>go dial(addr)\<close> and \<^verbatim>\<open>go serveIncoming(con)\<close> (\<open>None\<close> for a nil
  connection).
\<close>

datatype event =
    Status string string
  | LogLine string string
  | Display string string
  | Broadcast SweetNothing
  | Try nat SweetNothing attempt
  | Wrote string SweetNothing
  | ConnClosed string
  | GoDial string
  | GoServe "string option"

text \<open>
  The state of one node: the globals \<^verbatim>\<open>localInfo\<close> (its \<^verbatim>\<open>Addr()\<close>, with the
  lookup of the host name taken to succeed and to give the same answer each time),
  \<^verbatim>\<open>peers.channels\<close>, \<^verbatim>\<open>seenIds.m\<close> and \<^verbatim>\<open>nicknames.m\<close>, the channels
  allocated so far (a channel value of the program is an index into \<open>heap\<close>) and the
  events so far.
  \<^verbatim>\<open>peers.channels\<close> is an association list: its order stands for the order in
  which \<^verbatim>\<open>range\<close> walks the map, which Go leaves open.
\<close>

record node =
  localAddr :: string
  channels :: "(string \<times> nat) list"
  seenIds :: "string \<rightharpoonup> bool"
  nicknames :: "string \<rightharpoonup> string"
  heap :: "chan list"
  trace :: "event list"

text \<open>The initialisers of the globals (lines 120 to 126 and 136 to 139).\<close>

definition init :: "string \<Rightarrow> node" where
  "init a = \<lparr>localAddr = a, channels = [], seenIds = Map.empty, nicknames = Map.empty,
              heap = [], trace = []\<rparr>"

definition emit :: "event \<Rightarrow> node \<Rightarrow> node" where
  "emit e s = s\<lparr>trace := trace s @ [e]\<rparr>"

section \<open>Nicknames\<close>

text \<open>
  \<^verbatim>\<open>nick(addr)\<close>: the label a received message is printed under, \<open>you\<close> for the
  node's own address, else the nickname set for the address, else the address.
  \<^verbatim>\<open>setNick\<close> stores a nickname and reports it.
\<close>

definition nick :: "string \<Rightarrow> node \<Rightarrow> string" where
  "nick addr s =
     ''['' @ (if addr = localAddr s then ''you''
              else (case nicknames s addr of Some n \<Rightarrow> n | None \<Rightarrow> addr)) @ '']''"

definition setNick :: "string \<Rightarrow> string \<Rightarrow> node \<Rightarrow> node" where
  "setNick addr n s =
     emit (Status ''nicknamed'' (addr @ '' '' @ n)) (s\<lparr>nicknames := (nicknames s)(addr \<mapsto> n)\<rparr>)"

section \<open>The dedup cache\<close>

text \<open>
  \<^verbatim>\<open>ok := seenIds.m[id]; seenIds.m[id] = true; return ok\<close>, under the mutex. Reading a
  key that is absent from a Go map gives the zero value \<^verbatim>\<open>false\<close>.
\<close>

definition SeenId :: "string \<Rightarrow> node \<Rightarrow> bool \<times> node" where
  "SeenId i s =
     (let ok = (case seenIds s i of Some b \<Rightarrow> b | None \<Rightarrow> False)
      in (ok, s\<lparr>seenIds := (seenIds s)(i \<mapsto> True)\<rparr>))"

text \<open>Successive calls of \<^verbatim>\<open>SeenId\<close>, with the result of each.\<close>

fun SeenId_calls :: "string list \<Rightarrow> node \<Rightarrow> bool list \<times> node" where
  "SeenId_calls [] s = ([], s)"
| "SeenId_calls (i # is) s =
     (let (r, s1) = SeenId i s; (rs, s2) = SeenId_calls is s1 in (r # rs, s2))"

text \<open>Every marker stored in the cache is \<^verbatim>\<open>true\<close>: the only value the program stores.\<close>

definition cache_ok :: "node \<Rightarrow> bool" where
  "cache_ok s = (ran (seenIds s) \<subseteq> {True})"

section \<open>The peer registry\<close>

text \<open>
  \<^verbatim>\<open>Peers.Add\<close>: nil when the address has an entry, otherwise a new channel stored under
  the address and returned. \<^verbatim>\<open>Peers.Remove\<close>: \<^verbatim>\<open>delete(p.channels, addr)\<close>.
  \<^verbatim>\<open>Peers.List\<close>: the channels of the map, copied into a slice.
\<close>

definition Peers_Add :: "string \<Rightarrow> node \<Rightarrow> nat option \<times> node" where
  "Peers_Add addr s =
     (case map_of (channels s) addr of
        Some _ \<Rightarrow> (None, s)
      | None \<Rightarrow>
          (let c = length (heap s)
           in (Some c, s\<lparr>heap := heap s @ [make_chan],
                          channels := AList.update addr c (channels s)\<rparr>)))"

definition Peers_Remove :: "string \<Rightarrow> node \<Rightarrow> node" where
  "Peers_Remove addr s = s\<lparr>channels := AList.delete addr (channels s)\<rparr>"

definition Peers_List :: "node \<Rightarrow> nat list" where
  "Peers_List s = map snd (channels s)"

text \<open>Successive calls of \<^verbatim>\<open>Peers.Add\<close>, with the result of each.\<close>

fun Add_calls :: "string list \<Rightarrow> node \<Rightarrow> nat option list \<times> node" where
  "Add_calls [] s = ([], s)"
| "Add_calls (a # as) s =
     (let (r, s1) = Peers_Add a s; (rs, s2) = Add_calls as s1 in (r # rs, s2))"

section \<open>Broadcast\<close>

text \<open>
  What stops a goroutine, and with it the process: a method call on a nil interface
  value, a send on a closed channel, an index beyond the end of a slice.
\<close>

datatype fault = NilDereference | SendOnClosed | IndexOutOfRange

text \<open>
  The \<^verbatim>\<open>select\<close> of \<^verbatim>\<open>broadcast\<close> on one channel of the snapshot. A handle with no
  channel behind it behaves as a nil channel, which is never ready.
\<close>

definition send_on :: "nat \<Rightarrow> SweetNothing \<Rightarrow> node \<Rightarrow> attempt \<times> node" where
  "send_on ch w s =
     (if ch < length (heap s)
      then (let (r, c) = trySend w (heap s ! ch)
            in (r, emit (Try ch w r) (s\<lparr>heap := (heap s)[ch := c]\<rparr>)))
      else (Dropped, emit (Try ch w Dropped) s))"

fun fanout :: "nat list \<Rightarrow> SweetNothing \<Rightarrow> node \<Rightarrow> fault + node" where
  "fanout [] w s = Inr s"
| "fanout (ch # chs) w s =
     (case send_on ch w s of
        (SendPanic, s1) \<Rightarrow> Inl SendOnClosed
      | (_, s1) \<Rightarrow> fanout chs w s1)"

definition broadcast :: "SweetNothing \<Rightarrow> node \<Rightarrow> fault + node" where
  "broadcast w s = fanout (Peers_List s) w (emit (Broadcast w) s)"

section \<open>The inbound serve loop\<close>

text \<open>
  A JSON object on the wire, as \<^verbatim>\<open>Decode\<close> sees it: each field of the record is there
  with a value or is missing. \<^verbatim>\<open>Decode\<close> into a struct stores the fields that are
  there and leaves the other fields of the struct as they are.
\<close>

record wire_obj =
  jID :: "string option"
  jAddr :: "string option"
  jBody :: "string option"
  jTimestamp :: "nat option"

definition decode_into :: "wire_obj \<Rightarrow> SweetNothing \<Rightarrow> SweetNothing" where
  "decode_into obj w =
     \<lparr>ID = (case jID obj of Some v \<Rightarrow> v | None \<Rightarrow> ID w),
      Addr = (case jAddr obj of Some v \<Rightarrow> v | None \<Rightarrow> Addr w),
      Body = (case jBody obj of Some v \<Rightarrow> v | None \<Rightarrow> Body w),
      Timestamp = (case jTimestamp obj of Some v \<Rightarrow> v | None \<Rightarrow> Timestamp w)\<rparr>"

text \<open>What one call of \<^verbatim>\<open>dec.Decode(&whisper)\<close> yields: an object or an error.\<close>

datatype decoded = Obj wire_obj | DecodeError

text \<open>The zero value of \<^verbatim>\<open>var whisper SweetNothing\<close>.\<close>

definition zero_whisper :: SweetNothing where
  "zero_whisper = \<lparr>ID = [], Addr = [], Body = [], Timestamp = 0\<rparr>"

text \<open>Lines 179 to 184: the body of the loop once \<^verbatim>\<open>Decode\<close> has succeeded.\<close>

definition serveIncoming_body :: "SweetNothing \<Rightarrow> node \<Rightarrow> fault + node" where
  "serveIncoming_body w s =
     (let (seen, s1) = SeenId (ID w) s
      in if seen then Inr s1
         else (case broadcast w (emit (Display (nick (Addr w) s1) (Body w)) s1) of
                 Inl f \<Rightarrow> Inl f
               | Inr s2 \<Rightarrow> Inr (emit (GoDial (Addr w)) s2)))"

text \<open>
  The loop over what the successive calls of \<^verbatim>\<open>Decode\<close> yield; the end of the list is
  the end of the stream, where \<^verbatim>\<open>Decode\<close> returns \<^verbatim>\<open>io.EOF\<close>. The second argument
  is the variable \<^verbatim>\<open>whisper\<close>, declared before the loop. Each pass makes a decoder of
  its own; the list holds what the calls yield, whatever bytes a decoder read ahead.
\<close>

fun serveIncoming_loop :: "decoded list \<Rightarrow> SweetNothing \<Rightarrow> node \<Rightarrow> fault + node" where
  "serveIncoming_loop [] w s = Inr s"
| "serveIncoming_loop (DecodeError # rest) w s = Inr s"
| "serveIncoming_loop (Obj obj # rest) w s =
     (case serveIncoming_body (decode_into obj w) s of
        Inl f \<Rightarrow> Inl f
      | Inr s1 \<Rightarrow> serveIncoming_loop rest (decode_into obj w) s1)"

text \<open>
  \<^verbatim>\<open>serveIncoming(c)\<close>; a connection is its remote address and its stream. On a nil
  connection the first \<^verbatim>\<open>Decode\<close> calls \<^verbatim>\<open>Read\<close> on a nil interface value.
\<close>

definition serveIncoming :: "(string \<times> decoded list) option \<Rightarrow> node \<Rightarrow> fault + node" where
  "serveIncoming c s =
     (case c of
        None \<Rightarrow> Inl NilDereference
      | Some (remote, stream) \<Rightarrow>
          (case serveIncoming_loop stream zero_whisper s of
             Inl f \<Rightarrow> Inl f
           | Inr s1 \<Rightarrow>
               Inr (emit (Status ''Closed connection to'' remote) (emit (ConnClosed remote) s1))))"

section \<open>The dialer\<close>

text \<open>
  A goroutine running \<^verbatim>\<open>dial\<close> has returned, or is in the loop
  \<^verbatim>\<open>for s := range ch\<close> on its channel.
\<close>

datatype dial_state = Returned | Draining nat

text \<open>
  The deferred calls once the connection is open, last deferred first: close the
  connection and report it, then \<^verbatim>\<open>peers.Remove(addr)\<close>.
\<close>

definition dial_exit :: "string \<Rightarrow> node \<Rightarrow> node" where
  "dial_exit addr s =
     Peers_Remove addr (emit (Status ''Closed connection to'' addr) (emit (ConnClosed addr) s))"

text \<open>
  Lines 200 to 226: \<^verbatim>\<open>dial\<close> up to the loop. The second argument says whether
  \<^verbatim>\<open>net.Dial\<close> succeeds.
\<close>

definition dial :: "string \<Rightarrow> bool \<Rightarrow> node \<Rightarrow> dial_state \<times> node" where
  "dial addr connected s =
     (if addr = localAddr s then (Returned, s)
      else (case Peers_Add addr s of
              (None, s1) \<Rightarrow> (Returned, s1)
            | (Some ch, s1) \<Rightarrow>
                (let s2 = emit (Status ''Dialing'' addr) s1
                 in if \<not> connected
                    then (Returned, Peers_Remove addr (emit (LogLine ''Error dialing'' addr) s2))
                    else (Draining ch, emit (Status ''Connected to'' addr) s2))))"

text \<open>
  Lines 227 to 233: one pass through \<^verbatim>\<open>for s := range ch\<close>. The third argument says
  whether \<^verbatim>\<open>enc.Encode(s)\<close> succeeds. A goroutine that finds nothing to receive parks
  and stays in the loop; a receive on a nil channel blocks for ever.
\<close>

definition dial_iter :: "string \<Rightarrow> nat \<Rightarrow> bool \<Rightarrow> node \<Rightarrow> dial_state \<times> node" where
  "dial_iter addr ch enc_ok s =
     (if ch < length (heap s)
      then (case chan_recv (heap s ! ch) of
              (Got w, c) \<Rightarrow>
                (let s1 = s\<lparr>heap := (heap s)[ch := c]\<rparr>
                 in if enc_ok then (Draining ch, emit (Wrote addr w) s1)
                    else (Returned,
                          dial_exit addr (emit (LogLine ''Error encoding message'' addr) s1)))
            | (RangeEnd, c) \<Rightarrow> (Returned, dial_exit addr s)
            | (WouldBlock, c) \<Rightarrow> (Draining ch, s\<lparr>heap := (heap s)[ch := c]\<rparr>))
      else (Draining ch, s))"

section \<open>Local input and the listener\<close>

text \<open>
  \<^verbatim>\<open>handleCommand\<close>, given \<open>parts\<close>, the words of the trimmed, lower-cased line.
  Indexing an empty slice, or \<^verbatim>\<open>parts[1]\<close> of a one-word \<^verbatim>\<open>/dial\<close>, panics.
\<close>

definition handleCommand :: "string list \<Rightarrow> node \<Rightarrow> fault + node" where
  "handleCommand parts s =
     (case parts of
        [] \<Rightarrow> Inl IndexOutOfRange
      | p0 # ps \<Rightarrow>
          if p0 = ''/dial''
          then (case ps of [] \<Rightarrow> Inl IndexOutOfRange | p1 # _ \<Rightarrow> Inr (emit (GoDial p1) s))
          else if p0 = ''/setnick'' \<and> length parts = 3
          then Inr (setNick (parts ! 1) (parts ! 2) s)
          else Inr s)"

text \<open>
  One pass through the loop of \<^verbatim>\<open>startInputScanner\<close> for the line \<open>text\<close>; \<open>uid\<close>
  and \<open>now\<close> are what \<^verbatim>\<open>uniqueId()\<close> and \<^verbatim>\<open>time.Now().UTC()\<close> return, \<open>parts\<close>
  the words \<^verbatim>\<open>handleCommand\<close> splits the line into.
\<close>

definition startInputScanner_line :: "string \<Rightarrow> string list \<Rightarrow> string \<Rightarrow> nat \<Rightarrow> node \<Rightarrow> fault + node" where
  "startInputScanner_line text parts uid now s =
     (if length text = 0 then Inr s
      else if take 1 text = ''/'' then handleCommand parts s
      else broadcast \<lparr>ID = uid, Addr = localAddr s, Body = text, Timestamp = now\<rparr> s)"






section \<open>Runs of a node\<close>

text \<open>
  The goroutines of a node interleave. A run is a sequence of their steps: a line of
  input, a loop body of some \<^verbatim>\<open>serveIncoming\<close> with the message it decoded, the start
  of a \<^verbatim>\<open>dial\<close>, one pass of a dialer through its loop.
\<close>

datatype action =
    Input string "string list" string nat
  | Served SweetNothing
  | Dial string bool
  | Iter string nat bool

fun step :: "action \<Rightarrow> node \<Rightarrow> fault + node" where
  "step (Input text parts uid now) s = startInputScanner_line text parts uid now s"
| "step (Served w) s = serveIncoming_body w s"
| "step (Dial addr connected) s = Inr (snd (dial addr connected s))"
| "step (Iter addr ch enc_ok) s = Inr (snd (dial_iter addr ch enc_ok s))"

fun run :: "action list \<Rightarrow> node \<Rightarrow> fault + node" where
  "run [] s = Inr s"
| "run (a # as) s = (case step a s of Inl f \<Rightarrow> Inl f | Inr s1 \<Rightarrow> run as s1)"

text \<open>
  The shape of a registry that \<^verbatim>\<open>Peers.Add\<close> built: one entry for an address, one
  address for a channel, every channel allocated, and no channel closed.
\<close>

definition wf :: "node \<Rightarrow> bool" where
  "wf s =
     (distinct (map fst (channels s)) \<and> distinct (map snd (channels s)) \<and>
      list_all (\<lambda>c. c < length (heap s)) (map snd (channels s)) \<and>
      list_all (\<lambda>c. \<not> closed c \<and> capacity c = 0) (heap s))"

text \<open>Whether the \<^verbatim>\<open>select\<close> on a handle finds its channel ready.\<close>

definition ready_at :: "node \<Rightarrow> nat \<Rightarrow> bool" where
  "ready_at s ch = (ch < length (heap s) \<and> ready (heap s ! ch))"

text \<open>The outcome of the \<^verbatim>\<open>select\<close> on a handle in a state.\<close>

definition outcome :: "node \<Rightarrow> nat \<Rightarrow> attempt" where
  "outcome s ch = (if ready_at s ch then Enqueued else Dropped)"

text \<open>The events of a result: those of the node, none when the process faulted.\<close>

definition trace_of :: "fault + node \<Rightarrow> event list" where
  "trace_of r = (case r of Inl f \<Rightarrow> [] | Inr s \<Rightarrow> trace s)"

section \<open>Two nodes to evaluate on\<close>

text \<open>
  The node \<open>n\<close> after it dialled \<open>p\<close> and \<open>q\<close> and the dialer of \<open>p\<close> came to wait
  on its channel; and a message that \<open>n\<close> originates.
\<close>

definition peers_pq :: node where
  "peers_pq =
     snd (dial_iter ''p'' 0 True (snd (dial ''q'' True (snd (dial ''p'' True (init ''n''))))))"

definition hi :: SweetNothing where
  "hi = \<lparr>ID = ''m1'', Addr = ''n'', Body = ''hi'', Timestamp = 7\<rparr>"

text \<open>The node \<open>n\<close> once \<open>hi\<close> was handed to the dialer of \<open>p\<close>; and with that channel closed.\<close>

definition sent_pq :: node where
  "sent_pq = snd (send_on 0 hi peers_pq)"

definition closed_pq :: node where
  "closed_pq = peers_pq\<lparr>heap := [\<lparr>capacity = 0, queue = [], parked = False, closed = True\<rparr>,
                                     \<lparr>capacity = 0, queue = [], parked = False, closed = False\<rparr>]\<rparr>"

text \<open>Two objects on the wire, the second without an id.\<close>

definition one :: wire_obj where
  "one = \<lparr>jID = Some ''m1'', jAddr = Some ''p'', jBody = Some ''one'', jTimestamp = Some 1\<rparr>"

definition two_no_id :: wire_obj where
  "two_no_id = \<lparr>jID = None, jAddr = Some ''p'', jBody = Some ''two'', jTimestamp = Some 2\<rparr>"

text \<open>The node \<open>p\<close> after it dialled \<open>n\<close> and its dialer came to wait.\<close>

definition peer_p :: node where
  "peer_p = snd (dial_iter ''n'' 0 True (snd (dial ''n'' True (init ''p''))))"

section \<open>The dedup cache answers false once\<close>

lemma SeenId_result: "cache_ok s \<Longrightarrow> fst (SeenId i s) = (i \<in> dom (seenIds s))"
  by (auto simp: SeenId_def cache_ok_def ran_def split: option.splits)

lemma SeenId_dom: "dom (seenIds (snd (SeenId i s))) = insert i (dom (seenIds s))"
  by (simp add: SeenId_def)

lemma SeenId_cache_ok: "cache_ok s \<Longrightarrow> cache_ok (snd (SeenId i s))"
  by (auto simp: SeenId_def cache_ok_def ran_def split: if_splits)

lemma cache_ok_init: "cache_ok (init a)"
  by (simp add: cache_ok_def init_def)

lemma SeenId_calls_results:
  "cache_ok s \<Longrightarrow>
   fst (SeenId_calls ids s) =
     map (\<lambda>k. ids ! k \<in> dom (seenIds s) \<union> set (take k ids)) [0..<length ids]"
proof (induction ids arbitrary: s)
  case Nil
  then show ?case by simp
next
  case (Cons i ids)
  have ok: "cache_ok (snd (SeenId i s))"
    using Cons.prems by (rule SeenId_cache_ok)
  have rest: "fst (SeenId_calls ids (snd (SeenId i s))) =
      map (\<lambda>k. ids ! k \<in> insert i (dom (seenIds s)) \<union> set (take k ids)) [0..<length ids]"
    using Cons.IH [OF ok] by (simp add: SeenId_dom)
  have first: "fst (SeenId i s) = (i \<in> dom (seenIds s))"
    using Cons.prems by (rule SeenId_result)
  show ?case
    using first rest by (auto simp add: split_def map_upt_Suc simp del: upt_Suc)
qed

text \<open>
  Claim C1. In a cache that holds only \<^verbatim>\<open>true\<close> markers (the empty cache of the start
  is one, and \<^verbatim>\<open>SeenId\<close> keeps it so), \<^verbatim>\<open>SeenId(id)\<close> returns true exactly when the
  id is already in the cache; after the call the id is in the cache, so the next call
  with it returns true; and in any sequence of calls the k-th call returns true exactly
  when its id was in the cache at the start or is the id of an earlier call of the
  sequence: false on the first call with an id, true on every later one.
\<close>

theorem SeenId_false_once_then_true:
  "cache_ok s \<Longrightarrow>
   fst (SeenId i s) = (i \<in> dom (seenIds s)) \<and>
   i \<in> dom (seenIds (snd (SeenId i s))) \<and>
   cache_ok (snd (SeenId i s)) \<and>
   fst (SeenId i (snd (SeenId i s))) \<and>
   fst (SeenId_calls ids s) =
     map (\<lambda>k. ids ! k \<in> dom (seenIds s) \<union> set (take k ids)) [0..<length ids]"
  using SeenId_result [of s i] SeenId_result [of "snd (SeenId i s)" i]
    SeenId_cache_ok [of s i] SeenId_dom [of i s] SeenId_calls_results [of s ids]
  by simp

theorem SeenId_false_once_then_true_witness:
  "cache_ok (init ''n'') \<and>
   fst (SeenId ''m1'' (init ''n'')) = False \<and>
   fst (SeenId ''m1'' (snd (SeenId ''m1'' (init ''n'')))) = True \<and>
   fst (SeenId_calls [''m1'', ''m2'', ''m1'', ''m1''] (init ''n'')) = [False, False, True, True]"
  using SeenId_false_once_then_true [of "init ''n''" "''m1''" "[''m1'', ''m2'', ''m1'', ''m1'']"]
    cache_ok_init [of "''n''"]
  by (simp add: init_def upt_rec nth_Cons')

section \<open>Frame and shape lemmas\<close>

lemma emit_fields [simp]:
  "localAddr (emit e s) = localAddr s" "channels (emit e s) = channels s"
  "seenIds (emit e s) = seenIds s" "heap (emit e s) = heap s"
  "nicknames (emit e s) = nicknames s"
  "trace (emit e s) = trace s @ [e]"
  by (simp_all add: emit_def)

lemma wf_emit [simp]: "wf (emit e s) = wf s"
  by (simp add: wf_def)

lemma Peers_Add_present: "map_of (channels s) addr = Some c \<Longrightarrow> Peers_Add addr s = (None, s)"
  by (simp add: Peers_Add_def)

lemma update_absent: "map_of al k = None \<Longrightarrow> AList.update k v al = al @ [(k, v)]"
  by (induction al) (auto split: if_splits)

lemma Peers_Add_absent:
  "map_of (channels s) addr = None \<Longrightarrow>
   Peers_Add addr s =
     (Some (length (heap s)),
      s\<lparr>heap := heap s @ [make_chan], channels := channels s @ [(addr, length (heap s))]\<rparr>)"
  by (simp add: Peers_Add_def update_absent Let_def)

lemma wf_fresh: "wf s \<Longrightarrow> length (heap s) \<notin> set (Peers_List s)"
  by (auto simp: wf_def Peers_List_def list_all_iff)

lemma wf_Peers_Add: "wf s \<Longrightarrow> wf (snd (Peers_Add addr s))"
proof (cases "map_of (channels s) addr")
  case None
  assume w: "wf s"
  have k: "addr \<notin> fst ` set (channels s)"
    using None by (simp add: map_of_eq_None_iff)
  have f: "length (heap s) \<notin> snd ` set (channels s)"
    using wf_fresh [OF w] by (simp add: Peers_List_def)
  show ?thesis
    using w k f by (auto simp: Peers_Add_absent [OF None] wf_def list_all_iff make_chan_def)
next
  case (Some c)
  assume "wf s"
  then show ?thesis by (simp add: Peers_Add_present [OF Some])
qed

lemma wf_Peers_Remove: "wf s \<Longrightarrow> wf (Peers_Remove addr s)"
  by (auto simp: wf_def Peers_Remove_def AList.delete_eq list_all_iff distinct_map_filter)

lemma wf_init: "wf (init a)"
  by (simp add: wf_def init_def)

lemma Peers_Remove_absent: "map_of (channels (Peers_Remove addr s)) addr = None"
  by (simp add: Peers_Remove_def AList.delete_conv)


lemma Add_calls_results:
  "map (\<lambda>r. r \<noteq> None) (fst (Add_calls as s)) =
     map (\<lambda>k. as ! k \<notin> fst ` set (channels s) \<union> set (take k as)) [0..<length as]"
proof (induction as arbitrary: s)
  case Nil
  then show ?case by simp
next
  case (Cons a as)
  show ?case
  proof (cases "map_of (channels s) a")
    case None
    have k: "a \<notin> fst ` set (channels s)"
      using None by (simp add: map_of_eq_None_iff)
    show ?thesis
      using Cons.IH [of "snd (Peers_Add a s)"] k
      by (auto simp add: split_def Let_def map_upt_Suc Peers_Add_absent [OF None] simp del: upt_Suc)
  next
    case (Some c)
    have k: "a \<in> fst ` set (channels s)"
      using Some by (metis map_of_eq_None_iff option.distinct(1))
    show ?thesis
      using Cons.IH [of s] k
      by (auto simp add: split_def Let_def map_upt_Suc Peers_Add_present [OF Some] simp del: upt_Suc)
  qed
qed


lemma trySend_open:
  "\<not> closed c \<Longrightarrow> fst (trySend w c) = (if ready c then Enqueued else Dropped)"
  by (simp add: trySend_def ready_def)

lemma trySend_keeps:
  "closed (snd (trySend w c)) = closed c" "capacity (snd (trySend w c)) = capacity c"
  by (simp_all add: trySend_def)

lemma send_on_open:
  assumes "list_all (\<lambda>c. \<not> closed c) (heap s)"
  shows "send_on ch w s =
    (outcome s ch,
     emit (Try ch w (outcome s ch)) (s\<lparr>heap := (heap s)[ch := snd (trySend w (heap s ! ch))]\<rparr>))"
proof (cases "ch < length (heap s)")
  case True
  then have "\<not> closed (heap s ! ch)"
    using assms by (simp add: list_all_length)
  then have "fst (trySend w (heap s ! ch)) = outcome s ch"
    using True by (simp add: trySend_open outcome_def ready_at_def)
  then show ?thesis
    using True by (simp add: send_on_def split_def)
next
  case False
  then show ?thesis
    by (simp add: send_on_def outcome_def ready_at_def list_update_beyond)
qed

lemma outcome_not_panic [simp]: "outcome s ch \<noteq> SendPanic"
  by (simp add: outcome_def)

lemma list_all_update:
  "list_all P xs \<Longrightarrow> i < length xs \<longrightarrow> P x \<Longrightarrow> list_all P (xs[i := x])"
  by (cases "i < length xs") (auto simp: list_all_length nth_list_update list_update_beyond)

lemma fanout_spec:
  "distinct chs \<Longrightarrow> list_all (\<lambda>c. \<not> closed c) (heap s) \<Longrightarrow>
   \<exists>s'. fanout chs w s = Inr s' \<and>
     trace s' = trace s @ map (\<lambda>ch. Try ch w (outcome s ch)) chs \<and>
     channels s' = channels s \<and> seenIds s' = seenIds s \<and> localAddr s' = localAddr s \<and>
     heap s' = map (\<lambda>ch. if ch \<in> set chs then snd (trySend w (heap s ! ch)) else heap s ! ch)
                 [0..<length (heap s)] \<and>
     nicknames s' = nicknames s"
proof (induction chs arbitrary: s)
  case Nil
  then show ?case by (simp add: map_nth)
next
  case (Cons ch chs)
  let ?s1 = "emit (Try ch w (outcome s ch)) (s\<lparr>heap := (heap s)[ch := snd (trySend w (heap s ! ch))]\<rparr>)"
  have so: "send_on ch w s = (outcome s ch, ?s1)"
    using Cons.prems(2) by (rule send_on_open)
  have d: "distinct chs" and n: "ch \<notin> set chs"
    using Cons.prems(1) by simp_all
  have o1: "list_all (\<lambda>c. \<not> closed c) (heap ?s1)"
  proof -
    have "list_all (\<lambda>c. \<not> closed c) ((heap s)[ch := snd (trySend w (heap s ! ch))])"
      using Cons.prems(2) by (intro list_all_update) (auto simp: trySend_keeps list_all_length)
    then show ?thesis by simp
  qed
  obtain s' where s': "fanout chs w ?s1 = Inr s'"
    "trace s' = trace ?s1 @ map (\<lambda>c. Try c w (outcome ?s1 c)) chs"
    "channels s' = channels ?s1" "seenIds s' = seenIds ?s1" "localAddr s' = localAddr ?s1"
    "heap s' = map (\<lambda>c. if c \<in> set chs then snd (trySend w (heap ?s1 ! c)) else heap ?s1 ! c)
                 [0..<length (heap ?s1)]"
    "nicknames s' = nicknames ?s1"
    using Cons.IH [OF d o1] by blast
  have same: "\<And>c. c \<in> set chs \<Longrightarrow> outcome ?s1 c = outcome s c"
  proof -
    fix c assume "c \<in> set chs"
    then have "ch \<noteq> c" using n by auto
    then show "outcome ?s1 c = outcome s c"
      by (simp add: outcome_def ready_at_def)
  qed
  have f: "fanout (ch # chs) w s = Inr s'"
    using so s'(1) by (cases "ready_at s ch") (simp_all add: outcome_def)
  have t: "trace s' = trace s @ map (\<lambda>c. Try c w (outcome s c)) (ch # chs)"
    using s'(2) same by simp
  have h: "heap s' = map (\<lambda>c. if c \<in> set (ch # chs) then snd (trySend w (heap s ! c)) else heap s ! c)
                 [0..<length (heap s)]"
  proof (rule nth_equalityI)
    show "length (heap s') =
      length (map (\<lambda>c. if c \<in> set (ch # chs) then snd (trySend w (heap s ! c)) else heap s ! c)
                 [0..<length (heap s)])"
      by (simp add: s'(6))
  next
    fix i assume "i < length (heap s')"
    then have i: "i < length (heap s)" by (simp add: s'(6))
    have "heap s' ! i = (if i \<in> set chs then snd (trySend w (heap ?s1 ! i)) else heap ?s1 ! i)"
      using i by (simp add: s'(6))
    also have "\<dots> = (if i \<in> set (ch # chs) then snd (trySend w (heap s ! i)) else heap s ! i)"
      using i n by (cases "i = ch") (auto simp: nth_list_update)
    finally show "heap s' ! i =
      map (\<lambda>c. if c \<in> set (ch # chs) then snd (trySend w (heap s ! c)) else heap s ! c)
          [0..<length (heap s)] ! i"
      using i by simp
  qed
  show ?case
    using f t h s'(3,4,5,7) by simp
qed

lemma outcome_emit [simp]: "outcome (emit e s) ch = outcome s ch"
  by (simp add: outcome_def ready_at_def)

lemma node_eqI:
  "localAddr a = localAddr b \<Longrightarrow> channels a = channels b \<Longrightarrow> seenIds a = seenIds b \<Longrightarrow>
   nicknames a = nicknames b \<Longrightarrow> heap a = heap b \<Longrightarrow> trace a = trace b \<Longrightarrow>
   node.more a = node.more b \<Longrightarrow> a = b"
  by (cases a, cases b) simp

lemma broadcast_spec:
  assumes "wf s"
  shows "broadcast w s =
    Inr (s\<lparr>trace := trace s @ Broadcast w # map (\<lambda>ch. Try ch w (outcome s ch)) (Peers_List s),
           heap := map (\<lambda>ch. if ch \<in> set (Peers_List s) then snd (trySend w (heap s ! ch))
                               else heap s ! ch) [0..<length (heap s)]\<rparr>)"
proof -
  have d: "distinct (Peers_List s)"
    using assms by (simp add: wf_def Peers_List_def)
  have o: "list_all (\<lambda>c. \<not> closed c) (heap (emit (Broadcast w) s))"
    using assms by (simp add: wf_def list_all_iff)
  obtain s' where s': "fanout (Peers_List s) w (emit (Broadcast w) s) = Inr s'"
    "trace s' = trace (emit (Broadcast w) s) @
       map (\<lambda>ch. Try ch w (outcome (emit (Broadcast w) s) ch)) (Peers_List s)"
    "channels s' = channels (emit (Broadcast w) s)" "seenIds s' = seenIds (emit (Broadcast w) s)"
    "localAddr s' = localAddr (emit (Broadcast w) s)"
    "heap s' = map (\<lambda>ch. if ch \<in> set (Peers_List s)
                           then snd (trySend w (heap (emit (Broadcast w) s) ! ch))
                           else heap (emit (Broadcast w) s) ! ch)
                 [0..<length (heap (emit (Broadcast w) s))]"
    "nicknames s' = nicknames (emit (Broadcast w) s)"
    using fanout_spec [OF d o, of w] by blast
  have m: "node.more s' = node.more s"
    by (cases s, cases s') simp
  have "s' = s\<lparr>trace := trace s @ Broadcast w # map (\<lambda>ch. Try ch w (outcome s ch)) (Peers_List s),
           heap := map (\<lambda>ch. if ch \<in> set (Peers_List s) then snd (trySend w (heap s ! ch))
                               else heap s ! ch) [0..<length (heap s)]\<rparr>"
    using s'(2-7) m by (intro node_eqI) simp_all
  then show ?thesis
    using s'(1) by (simp add: broadcast_def)
qed

lemma wf_heap_map:
  assumes "wf s"
  shows "wf (s\<lparr>trace := t,
           heap := map (\<lambda>ch. if ch \<in> A then snd (trySend w (heap s ! ch)) else heap s ! ch)
                     [0..<length (heap s)]\<rparr>)"
  using assms by (auto simp: wf_def list_all_iff trySend_keeps all_set_conv_all_nth)

lemma broadcast_frame:
  assumes "wf s"
  shows "\<exists>s'. broadcast w s = Inr s' \<and> wf s' \<and> channels s' = channels s \<and>
    localAddr s' = localAddr s \<and> seenIds s' = seenIds s \<and> nicknames s' = nicknames s"
  using broadcast_spec [OF assms, of w] wf_heap_map [OF assms] by simp

lemma SeenId_frame [simp]:
  "channels (snd (SeenId i s)) = channels s" "localAddr (snd (SeenId i s)) = localAddr s"
  "heap (snd (SeenId i s)) = heap s" "trace (snd (SeenId i s)) = trace s"
  "nicknames (snd (SeenId i s)) = nicknames s"
  by (simp_all add: SeenId_def)

lemma wf_SeenId [simp]: "wf (snd (SeenId i s)) = wf s"
  by (simp add: wf_def)

lemma serveIncoming_body_frame:
  assumes "wf s"
  shows "\<exists>s'. serveIncoming_body w s = Inr s' \<and> wf s' \<and> channels s' = channels s \<and>
    localAddr s' = localAddr s"
proof (cases "fst (SeenId (ID w) s)")
  case True
  then show ?thesis using assms by (simp add: serveIncoming_body_def split_def)
next
  case False
  have "wf (emit (Display (nick (Addr w) (snd (SeenId (ID w) s))) (Body w)) (snd (SeenId (ID w) s)))"
    using assms by simp
  from broadcast_frame [OF this, of w] obtain s2 where
    "broadcast w (emit (Display (nick (Addr w) (snd (SeenId (ID w) s))) (Body w))
       (snd (SeenId (ID w) s))) = Inr s2"
    "wf s2" "channels s2 = channels s" "localAddr s2 = localAddr s"
    by auto
  then show ?thesis using False by (simp add: serveIncoming_body_def split_def)
qed

lemma handleCommand_frame:
  "handleCommand parts s = Inr s' \<Longrightarrow>
   wf s' = wf s \<and> channels s' = channels s \<and> localAddr s' = localAddr s"
  by (auto simp: handleCommand_def setNick_def wf_def split: list.splits if_splits)

lemma startInputScanner_line_frame:
  assumes "wf s" "startInputScanner_line text parts uid now s = Inr s'"
  shows "wf s' \<and> channels s' = channels s \<and> localAddr s' = localAddr s"
proof -
  consider "length text = 0" | "length text \<noteq> 0" "take 1 text = ''/''"
    | "length text \<noteq> 0" "take 1 text \<noteq> ''/''" by blast
  then show ?thesis
  proof cases
    case 1
    then show ?thesis using assms by (simp add: startInputScanner_line_def)
  next
    case 2
    then have "handleCommand parts s = Inr s'" using assms(2) by (simp add: startInputScanner_line_def)
    then show ?thesis using handleCommand_frame assms(1) by blast
  next
    case 3
    then have "broadcast \<lparr>ID = uid, Addr = localAddr s, Body = text, Timestamp = now\<rparr> s = Inr s'"
      using assms(2) by (simp add: startInputScanner_line_def)
    then show ?thesis
      using broadcast_frame [OF assms(1), of "\<lparr>ID = uid, Addr = localAddr s, Body = text, Timestamp = now\<rparr>"]
      by auto
  qed
qed

lemma Peers_Add_localAddr [simp]: "localAddr (snd (Peers_Add addr s)) = localAddr s"
  by (simp add: Peers_Add_def Let_def split: option.splits)

lemma Peers_Remove_fields [simp]:
  "localAddr (Peers_Remove addr s) = localAddr s" "heap (Peers_Remove addr s) = heap s"
  "seenIds (Peers_Remove addr s) = seenIds s" "trace (Peers_Remove addr s) = trace s"
  "nicknames (Peers_Remove addr s) = nicknames s"
  by (simp_all add: Peers_Remove_def)

lemma Peers_Add_other:
  "a \<noteq> addr \<Longrightarrow> map_of (channels (snd (Peers_Add addr s))) a = map_of (channels s) a"
  by (simp add: Peers_Add_def Let_def AList.update_conv' split: option.splits)

lemma Peers_Remove_None:
  "map_of (channels s) a = None \<Longrightarrow> map_of (channels (Peers_Remove addr s)) a = None"
  by (simp add: Peers_Remove_def AList.delete_conv)

lemma dial_frame:
  assumes "wf s"
  shows "wf (snd (dial addr c s)) \<and> localAddr (snd (dial addr c s)) = localAddr s \<and>
    (map_of (channels s) (localAddr s) = None \<longrightarrow>
       map_of (channels (snd (dial addr c s))) (localAddr s) = None)"
proof (cases "addr = localAddr s")
  case True
  then show ?thesis using assms by (simp add: dial_def)
next
  case False
  have w: "wf (snd (Peers_Add addr s))" using assms by (rule wf_Peers_Add)
  have k: "map_of (channels (snd (Peers_Add addr s))) (localAddr s) = map_of (channels s) (localAddr s)"
    using False by (simp add: Peers_Add_other)
  have l: "localAddr (snd (Peers_Add addr s)) = localAddr s" by simp
  show ?thesis
    using False w k l
    by (cases "Peers_Add addr s")
       (auto simp: dial_def Let_def wf_Peers_Remove Peers_Remove_None split: option.splits)
qed

lemma wf_heap_update:
  "wf s \<Longrightarrow> ch < length (heap s) \<Longrightarrow> closed c = closed (heap s ! ch) \<Longrightarrow>
   capacity c = capacity (heap s ! ch) \<Longrightarrow> wf (s\<lparr>heap := (heap s)[ch := c]\<rparr>)"
  by (auto simp: wf_def list_all_length nth_list_update)

lemma chan_recv_keeps:
  "closed (snd (chan_recv c)) = closed c" "capacity (snd (chan_recv c)) = capacity c"
  by (simp_all add: chan_recv_def split: list.splits)

lemma wf_dial_exit: "wf s \<Longrightarrow> wf (dial_exit addr s)"
  by (simp add: dial_exit_def wf_Peers_Remove)

lemma dial_iter_frame:
  assumes "wf s"
  shows "wf (snd (dial_iter addr ch e s)) \<and> localAddr (snd (dial_iter addr ch e s)) = localAddr s \<and>
    (map_of (channels s) a = None \<longrightarrow> map_of (channels (snd (dial_iter addr ch e s))) a = None)"
proof (cases "ch < length (heap s)")
  case False
  then show ?thesis using assms by (simp add: dial_iter_def)
next
  case True
  obtain r c where rc: "chan_recv (heap s ! ch) = (r, c)" by (cases "chan_recv (heap s ! ch)")
  have w1: "wf (s\<lparr>heap := (heap s)[ch := c]\<rparr>)"
    using chan_recv_keeps [of "heap s ! ch"] rc assms True by (simp add: wf_heap_update)
  show ?thesis
    using True rc w1 assms
    by (cases r)
       (auto simp: dial_iter_def Let_def dial_exit_def wf_Peers_Remove Peers_Remove_None)
qed

lemma step_frame:
  assumes "wf s" "step a s = Inr s'"
  shows "wf s' \<and> localAddr s' = localAddr s \<and>
    (map_of (channels s) (localAddr s) = None \<longrightarrow> map_of (channels s') (localAddr s') = None)"
proof (cases a)
  case (Input ln parts uid now)
  then show ?thesis using assms startInputScanner_line_frame [of s ln parts uid now s'] by simp
next
  case (Served w)
  then show ?thesis using assms serveIncoming_body_frame [of s w] by auto
next
  case (Dial addr c)
  then show ?thesis using assms dial_frame [of s addr c] by auto
next
  case (Iter addr ch e)
  then show ?thesis using assms dial_iter_frame [of s addr ch e "localAddr s"] by auto
qed

lemma run_frame:
  "wf s \<Longrightarrow> run acts s = Inr s' \<Longrightarrow>
   wf s' \<and> localAddr s' = localAddr s \<and>
   (map_of (channels s) (localAddr s) = None \<longrightarrow> map_of (channels s') (localAddr s') = None)"
proof (induction acts arbitrary: s)
  case Nil
  then show ?case by simp
next
  case (Cons a acts)
  from Cons.prems(2) obtain s1 where s1: "step a s = Inr s1" "run acts s1 = Inr s'"
    by (auto split: sum.splits)
  have f1: "wf s1 \<and> localAddr s1 = localAddr s \<and>
    (map_of (channels s) (localAddr s) = None \<longrightarrow> map_of (channels s1) (localAddr s1) = None)"
    using Cons.prems(1) s1(1) by (rule step_frame)
  have f2: "wf s' \<and> localAddr s' = localAddr s1 \<and>
    (map_of (channels s1) (localAddr s1) = None \<longrightarrow> map_of (channels s') (localAddr s') = None)"
    using f1 s1(2) Cons.IH by blast
  show ?case using f1 f2 by auto
qed

text \<open>Every state a node reaches from its start has the shape \<open>wf\<close>.\<close>

lemma reachable_wf: "run acts (init a) = Inr s \<Longrightarrow> wf s"
  using run_frame [OF wf_init, of acts a s] by simp

section \<open>Registry and broadcast\<close>

lemmas eval_defs = init_def dial_def dial_iter_def dial_exit_def Peers_Add_def Peers_Remove_def
  Peers_List_def make_chan_def emit_def chan_recv_def trySend_def send_on_def broadcast_def
  SeenId_def serveIncoming_body_def nick_def Let_def split_def

lemma peers_pq_eval:
  "peers_pq = \<lparr>localAddr = ''n'', channels = [(''p'', 0), (''q'', 1)], seenIds = Map.empty,
     nicknames = Map.empty,
     heap = [\<lparr>capacity = 0, queue = [], parked = True, closed = False\<rparr>,
             \<lparr>capacity = 0, queue = [], parked = False, closed = False\<rparr>],
     trace = [Status ''Dialing'' ''p'', Status ''Connected to'' ''p'',
              Status ''Dialing'' ''q'', Status ''Connected to'' ''q'']\<rparr>"
  by (simp add: peers_pq_def eval_defs)

lemma wf_peers_pq: "wf peers_pq"
  by (simp add: peers_pq_eval wf_def)

lemma trySend_effect:
  "\<not> closed c \<Longrightarrow>
   snd (trySend w c) = (if ready c then c\<lparr>queue := queue c @ [w], parked := False\<rparr> else c)"
  by (cases c) (simp add: trySend_def ready_def)

text \<open>
  Claim C4. On a registry of the shape \<^verbatim>\<open>Peers.Add\<close> builds, \<^verbatim>\<open>broadcast\<close> returns
  (it neither blocks nor panics) after exactly one \<^verbatim>\<open>select\<close> per handle of the
  snapshot, in the order of the snapshot: the message is appended to the queue of each
  channel that was ready and handed to its receiver, the channels that were not ready
  stay as they were and the message is dropped for them; the registry, the dedup cache
  and the local address are not changed.
\<close>

theorem broadcast_one_attempt_per_handle:
  "wf s \<Longrightarrow>
   \<exists>s'. broadcast w s = Inr s' \<and>
     trace s' = trace s @ Broadcast w # map (\<lambda>ch. Try ch w (outcome s ch)) (Peers_List s) \<and>
     heap s' = map (\<lambda>ch. if ch \<in> set (Peers_List s) \<and> ready (heap s ! ch)
                          then (heap s ! ch)\<lparr>queue := queue (heap s ! ch) @ [w], parked := False\<rparr>
                          else heap s ! ch) [0..<length (heap s)] \<and>
     channels s' = channels s \<and> seenIds s' = seenIds s \<and> localAddr s' = localAddr s \<and>
     nicknames s' = nicknames s"
proof -
  assume w: "wf s"
  have o: "\<And>ch. ch < length (heap s) \<Longrightarrow> \<not> closed (heap s ! ch)"
    using w by (simp add: wf_def list_all_length)
  have "map (\<lambda>ch. if ch \<in> set (Peers_List s) then snd (trySend w (heap s ! ch)) else heap s ! ch)
          [0..<length (heap s)] =
        map (\<lambda>ch. if ch \<in> set (Peers_List s) \<and> ready (heap s ! ch)
                   then (heap s ! ch)\<lparr>queue := queue (heap s ! ch) @ [w], parked := False\<rparr>
                   else heap s ! ch) [0..<length (heap s)]"
    using o by (auto simp: trySend_effect)
  then show ?thesis
    using broadcast_spec [OF w, of w] by simp
qed

theorem broadcast_one_attempt_per_handle_witness:
  "wf peers_pq \<and>
   (\<exists>s'. broadcast hi peers_pq = Inr s' \<and>
      trace s' = trace peers_pq @ [Broadcast hi, Try 0 hi Enqueued, Try 1 hi Dropped] \<and>
      map queue (heap s') = [[hi], []] \<and>
      channels s' = channels peers_pq \<and> seenIds s' = seenIds peers_pq)"
  using broadcast_one_attempt_per_handle [OF wf_peers_pq, of hi]
  by (auto simp add: peers_pq_eval wf_def Peers_List_def outcome_def ready_at_def ready_def upt_rec)

text \<open>
  Claim C3. \<^verbatim>\<open>Peers.Add(addr)\<close> returns nil and changes nothing when the address
  has an entry; otherwise it allocates a new channel, not yet in the registry, stores it
  under the address and returns it. A registry of this shape keeps its shape under
  \<^verbatim>\<open>Add\<close> and \<^verbatim>\<open>Remove\<close> and along every run of the node, so it never has two
  entries for one address; and in a sequence of \<^verbatim>\<open>Add\<close> calls the k-th returns a
  channel exactly when its address had no entry at the start and is not the address of
  an earlier call.
\<close>

theorem Peers_Add_first_writer_wins:
  "(map_of (channels s) addr \<noteq> None \<longrightarrow> Peers_Add addr s = (None, s)) \<and>
   (map_of (channels s) addr = None \<longrightarrow>
      Peers_Add addr s =
        (Some (length (heap s)),
         s\<lparr>heap := heap s @ [make_chan], channels := channels s @ [(addr, length (heap s))]\<rparr>)) \<and>
   (wf s \<longrightarrow> length (heap s) \<notin> set (Peers_List s) \<and> wf (snd (Peers_Add addr s)) \<and>
      wf (Peers_Remove addr s)) \<and>
   (wf s \<and> run acts s = Inr s' \<longrightarrow> distinct (map fst (channels s'))) \<and>
   map (\<lambda>r. r \<noteq> None) (fst (Add_calls as s)) =
     map (\<lambda>k. as ! k \<notin> fst ` set (channels s) \<union> set (take k as)) [0..<length as]"
proof -
  have r: "wf s \<and> run acts s = Inr s' \<longrightarrow> distinct (map fst (channels s'))"
    using run_frame [of s acts s'] by (auto simp: wf_def)
  show ?thesis
    using r Peers_Add_present [of s addr] Peers_Add_absent [of s addr] wf_fresh [of s]
      wf_Peers_Add [of s addr] wf_Peers_Remove [of s addr] Add_calls_results [of as s]
    by auto
qed

theorem Peers_Add_first_writer_wins_witness:
  "map_of (channels (init ''n'')) ''p'' = None \<and>
   Peers_Add ''p'' (init ''n'') =
     (Some 0, (init ''n'')\<lparr>heap := [make_chan], channels := [(''p'', 0)]\<rparr>) \<and>
   map_of (channels peers_pq) ''p'' \<noteq> None \<and>
   Peers_Add ''p'' peers_pq = (None, peers_pq) \<and>
   wf peers_pq \<and> 2 \<notin> set (Peers_List peers_pq) \<and> wf (snd (Peers_Add ''r'' peers_pq)) \<and>
   run [Dial ''p'' True, Dial ''p'' True] peers_pq = Inr peers_pq \<and>
   distinct (map fst (channels peers_pq)) \<and>
   map (\<lambda>r. r \<noteq> None) (fst (Add_calls [''r'', ''p'', ''r'', ''r''] peers_pq)) =
     [True, False, False, False]"
proof -
  have a: "map_of (channels (init ''n'')) ''p'' = None"
    by (simp add: init_def)
  have b: "map_of (channels peers_pq) ''p'' \<noteq> None"
    by (simp add: peers_pq_eval)
  have c: "run [Dial ''p'' True, Dial ''p'' True] peers_pq = Inr peers_pq"
    by (simp add: peers_pq_eval dial_def Peers_Add_def)
  have h: "length (heap peers_pq) = 2" "fst ` set (channels peers_pq) = {''p'', ''q''}"
    by (simp_all add: peers_pq_eval)
  note t0 = Peers_Add_first_writer_wins [of "init ''n''" "''p''" "[]" "init ''n''" "[]"]
  note t1 = Peers_Add_first_writer_wins [of peers_pq "''p''" "[Dial ''p'' True, Dial ''p'' True]"
      peers_pq "[''r'', ''p'', ''r'', ''r'']"]
  note t2 = Peers_Add_first_writer_wins [of peers_pq "''r''" "[]" peers_pq "[]"]
  have r0: "Peers_Add ''p'' (init ''n'') =
     (Some 0, (init ''n'')\<lparr>heap := [make_chan], channels := [(''p'', 0)]\<rparr>)"
    using t0 a by (simp add: init_def)
  have r1: "Peers_Add ''p'' peers_pq = (None, peers_pq)"
    using t1 b by blast
  have r2: "2 \<notin> set (Peers_List peers_pq)" "distinct (map fst (channels peers_pq))"
    using t1 wf_peers_pq c h(1) by simp_all
  have r3: "wf (snd (Peers_Add ''r'' peers_pq))"
    using t2 wf_peers_pq by blast
  have r4: "map (\<lambda>r. r \<noteq> None) (fst (Add_calls [''r'', ''p'', ''r'', ''r''] peers_pq)) =
     [True, False, False, False]"
    using t1 h(2) by (simp add: upt_rec nth_Cons')
  show ?thesis
    using a b c r0 r1 r2 r3 r4 wf_peers_pq by simp
qed

section \<open>The dialer leaves no entry behind\<close>

lemma dial_exit_absent: "map_of (channels (dial_exit addr s)) addr = None"
  by (simp add: dial_exit_def Peers_Remove_absent)

lemma dial_returns_removed:
  assumes "addr \<noteq> localAddr s" "fst (Peers_Add addr s) \<noteq> None" "fst (dial addr c s) = Returned"
  shows "map_of (channels (snd (dial addr c s))) addr = None"
  using assms
  by (cases "Peers_Add addr s")
     (auto simp: dial_def Let_def Peers_Remove_absent split: option.splits if_splits)

lemma dial_iter_returns_removed:
  assumes "fst (dial_iter addr ch e s) = Returned"
  shows "map_of (channels (snd (dial_iter addr ch e s))) addr = None"
proof (cases "ch < length (heap s)")
  case False
  then show ?thesis using assms by (simp add: dial_iter_def)
next
  case True
  obtain r c where rc: "chan_recv (heap s ! ch) = (r, c)" by (cases "chan_recv (heap s ! ch)")
  show ?thesis
    using True rc assms
    by (cases r) (auto simp: dial_iter_def Let_def dial_exit_absent split: if_splits)
qed

lemma dial_connect_failure:
  assumes "addr \<noteq> localAddr s" "fst (Peers_Add addr s) \<noteq> None"
  shows "fst (dial addr False s) = Returned"
  using assms by (cases "Peers_Add addr s") (auto simp: dial_def Let_def split: option.splits)

lemma dial_connected:
  assumes "addr \<noteq> localAddr s" "map_of (channels s) addr = None"
  shows "fst (dial addr True s) = Draining (length (heap s)) \<and>
    map_of (channels (snd (dial addr True s))) addr = Some (length (heap s))"
  using assms by (simp add: dial_def Let_def Peers_Add_absent map_add_def)

lemma dial_iter_encode_failure:
  assumes "ch < length (heap s)" "queue (heap s ! ch) \<noteq> []"
  shows "fst (dial_iter addr ch False s) = Returned"
  using assms by (auto simp: dial_iter_def chan_recv_def Let_def split: list.splits)

lemma dial_iter_range_end:
  assumes "ch < length (heap s)" "queue (heap s ! ch) = []" "closed (heap s ! ch)"
  shows "fst (dial_iter addr ch e s) = Returned"
  using assms by (auto simp: dial_iter_def chan_recv_def Let_def split: list.splits)

text \<open>
  Claim C6. A \<^verbatim>\<open>dial(addr)\<close> for another address than the node's own that got a
  channel from \<^verbatim>\<open>Peers.Add\<close> leaves no entry for the address when it returns, on
  each way out: \<^verbatim>\<open>net.Dial\<close> fails (then it does return), \<^verbatim>\<open>Encode\<close> fails on a
  received message (then it does return), the \<^verbatim>\<open>range\<close> over the channel ends
  because the channel is closed and empty (then it does return); whenever a pass through
  the loop ends in a return, the entry is gone.
\<close>

theorem dial_removes_entry_on_every_exit:
  "(addr \<noteq> localAddr s \<and> fst (Peers_Add addr s) \<noteq> None \<longrightarrow>
      fst (dial addr False s) = Returned \<and>
      (fst (dial addr c s) = Returned \<longrightarrow> map_of (channels (snd (dial addr c s))) addr = None)) \<and>
   (ch < length (heap s) \<and> queue (heap s ! ch) \<noteq> [] \<longrightarrow>
      fst (dial_iter addr ch False s) = Returned) \<and>
   (ch < length (heap s) \<and> queue (heap s ! ch) = [] \<and> closed (heap s ! ch) \<longrightarrow>
      fst (dial_iter addr ch e s) = Returned) \<and>
   (fst (dial_iter addr ch e s) = Returned \<longrightarrow>
      map_of (channels (snd (dial_iter addr ch e s))) addr = None)"
  using dial_returns_removed [of addr s c] dial_connect_failure [of addr s]
    dial_iter_encode_failure [of ch s addr] dial_iter_range_end [of ch s addr e]
    dial_iter_returns_removed [of addr ch e s]
  by blast


theorem dial_removes_entry_on_every_exit_witness:
  "''p'' \<noteq> localAddr (init ''n'') \<and> fst (Peers_Add ''p'' (init ''n'')) \<noteq> None \<and>
   fst (dial ''p'' False (init ''n'')) = Returned \<and>
   map_of (channels (snd (dial ''p'' False (init ''n'')))) ''p'' = None \<and>
   0 < length (heap sent_pq) \<and> queue (heap sent_pq ! 0) \<noteq> [] \<and>
   map_of (channels sent_pq) ''p'' = Some 0 \<and>
   fst (dial_iter ''p'' 0 False sent_pq) = Returned \<and>
   map_of (channels (snd (dial_iter ''p'' 0 False sent_pq))) ''p'' = None \<and>
   queue (heap closed_pq ! 0) = [] \<and> closed (heap closed_pq ! 0) \<and>
   map_of (channels closed_pq) ''p'' = Some 0 \<and>
   fst (dial_iter ''p'' 0 True closed_pq) = Returned \<and>
   map_of (channels (snd (dial_iter ''p'' 0 True closed_pq))) ''p'' = None"
proof -
  have a: "''p'' \<noteq> localAddr (init ''n'')" "fst (Peers_Add ''p'' (init ''n'')) \<noteq> None"
    by (simp_all add: init_def Peers_Add_def)
  have b: "0 < length (heap sent_pq)" "queue (heap sent_pq ! 0) \<noteq> []"
    "map_of (channels sent_pq) ''p'' = Some 0"
    by (simp_all add: sent_pq_def peers_pq_eval send_on_def trySend_def emit_def)
  have c: "0 < length (heap closed_pq)" "queue (heap closed_pq ! 0) = []"
    "closed (heap closed_pq ! 0)" "map_of (channels closed_pq) ''p'' = Some 0"
    by (simp_all add: closed_pq_def peers_pq_eval)
  note t0 = dial_removes_entry_on_every_exit [of "''p''" "init ''n''" False 0 True]
  note t1 = dial_removes_entry_on_every_exit [of "''p''" sent_pq False 0 False]
  note t2 = dial_removes_entry_on_every_exit [of "''p''" closed_pq False 0 True]
  show ?thesis
    using a b c t0 t1 t2 by blast
qed

text \<open>
  Claim C7. \<^verbatim>\<open>dial\<close> of the node's own address returns with the state as it was:
  no \<^verbatim>\<open>Add\<close>, no \<^verbatim>\<open>Remove\<close>, no connection, no output. Along every run of a
  node whose registry has no entry for its own address, the local address stays the
  same and the registry never gets such an entry.
\<close>

theorem dial_own_address_is_noop:
  "dial (localAddr s) c s = (Returned, s) \<and>
   (wf s \<and> map_of (channels s) (localAddr s) = None \<and> run acts s = Inr s' \<longrightarrow>
      localAddr s' = localAddr s \<and> map_of (channels s') (localAddr s) = None)"
  using run_frame [of s acts s'] by (auto simp: dial_def)

theorem dial_own_address_is_noop_witness:
  "wf (init ''n'') \<and> map_of (channels (init ''n'')) (localAddr (init ''n'')) = None \<and>
   dial ''n'' True (init ''n'') = (Returned, init ''n'') \<and>
   (\<exists>s'. run [Dial ''n'' True, Dial ''p'' True, Served hi, Dial ''n'' True] (init ''n'') = Inr s' \<and>
      map fst (channels s') = [''p''] \<and> map_of (channels s') ''n'' = None)"
proof -
  have a: "map_of (channels (init ''n'')) (localAddr (init ''n'')) = None" "localAddr (init ''n'') = ''n''"
    by (simp_all add: init_def)
  obtain s' where r: "run [Dial ''n'' True, Dial ''p'' True, Served hi, Dial ''n'' True] (init ''n'') = Inr s'"
    "map fst (channels s') = [''p'']"
    by (simp add: eval_defs hi_def)
  note t = dial_own_address_is_noop [of "init ''n''" True
      "[Dial ''n'' True, Dial ''p'' True, Served hi, Dial ''n'' True]" s']
  have "map_of (channels s') ''n'' = None"
    using t a r(1) wf_init [of "''n''"] by simp
  moreover have "dial ''n'' True (init ''n'') = (Returned, init ''n'')"
    using t a(2) by simp
  ultimately show ?thesis
    using a r wf_init [of "''n''"] by auto
qed

section \<open>Unbuffered channels\<close>

lemma outcome_unbuffered:
  assumes "wf s"
  shows "outcome s ch = (if ch < length (heap s) \<and> parked (heap s ! ch) then Enqueued else Dropped)"
  using assms by (auto simp: outcome_def ready_at_def ready_def wf_def list_all_length)

lemma wf_capacity: "wf s \<Longrightarrow> list_all (\<lambda>c. capacity c = 0) (heap s)"
  by (simp add: wf_def list_all_iff)

lemma wf_handle: "wf s \<Longrightarrow> ch \<in> set (Peers_List s) \<Longrightarrow> ch < length (heap s)"
  by (auto simp: wf_def Peers_List_def list_all_iff)

text \<open>
  Claim C9. The channel \<^verbatim>\<open>Peers.Add\<close> creates has capacity 0, and so has every
  channel along every run of a node. On such channels each \<^verbatim>\<open>select\<close> of
  \<^verbatim>\<open>broadcast\<close> enqueues exactly when the dialer of the channel is parked in its
  receive, and drops otherwise; a send that succeeds wakes the dialer, so a second send
  before the dialer is back at its receive is dropped.
\<close>

theorem unbuffered_channel_drops_unless_dialer_waits:
  "capacity make_chan = 0 \<and>
   (map_of (channels s) addr = None \<longrightarrow>
      fst (Peers_Add addr s) = Some (length (heap s)) \<and>
      heap (snd (Peers_Add addr s)) ! length (heap s) = make_chan) \<and>
   (wf s \<and> run acts s = Inr s' \<longrightarrow> list_all (\<lambda>c. capacity c = 0) (heap s')) \<and>
   (wf s \<longrightarrow>
      (\<exists>s1. broadcast w s = Inr s1 \<and>
         trace s1 = trace s @ Broadcast w #
           map (\<lambda>ch. Try ch w (if parked (heap s ! ch) then Enqueued else Dropped)) (Peers_List s))) \<and>
   (\<not> closed c \<and> capacity c = 0 \<longrightarrow>
      fst (trySend w c) = (if parked c then Enqueued else Dropped) \<and>
      \<not> parked (snd (trySend w c)) \<and>
      fst (trySend w2 (snd (trySend w c))) = Dropped)"
proof -
  have r: "wf s \<and> run acts s = Inr s' \<longrightarrow> list_all (\<lambda>c. capacity c = 0) (heap s')"
    using run_frame [of s acts s'] wf_capacity [of s'] by blast
  have b: "wf s \<longrightarrow>
      (\<exists>s1. broadcast w s = Inr s1 \<and>
         trace s1 = trace s @ Broadcast w #
           map (\<lambda>ch. Try ch w (if parked (heap s ! ch) then Enqueued else Dropped)) (Peers_List s))"
  proof
    assume w: "wf s"
    have "\<And>ch. ch \<in> set (Peers_List s) \<Longrightarrow>
      outcome s ch = (if parked (heap s ! ch) then Enqueued else Dropped)"
      using wf_handle [OF w] outcome_unbuffered [OF w] by simp
    then have "map (\<lambda>ch. Try ch w (outcome s ch)) (Peers_List s) =
      map (\<lambda>ch. Try ch w (if parked (heap s ! ch) then Enqueued else Dropped)) (Peers_List s)"
      by simp
    then show "\<exists>s1. broadcast w s = Inr s1 \<and>
         trace s1 = trace s @ Broadcast w #
           map (\<lambda>ch. Try ch w (if parked (heap s ! ch) then Enqueued else Dropped)) (Peers_List s)"
      using broadcast_spec [OF w, of w] by simp
  qed
  have t: "\<not> closed c \<and> capacity c = 0 \<longrightarrow>
      fst (trySend w c) = (if parked c then Enqueued else Dropped) \<and>
      \<not> parked (snd (trySend w c)) \<and>
      fst (trySend w2 (snd (trySend w c))) = Dropped"
    by (cases "parked c") (simp_all add: trySend_def)
  have a: "map_of (channels s) addr = None \<longrightarrow>
      fst (Peers_Add addr s) = Some (length (heap s)) \<and>
      heap (snd (Peers_Add addr s)) ! length (heap s) = make_chan"
    using Peers_Add_absent [of s addr] by simp
  have z: "capacity make_chan = 0"
    by (simp add: make_chan_def)
  show ?thesis
    by (rule conjI [OF z conjI [OF a conjI [OF r conjI [OF b t]]]])
qed

theorem unbuffered_channel_drops_unless_dialer_waits_witness:
  "map_of (channels peers_pq) ''r'' = None \<and>
   fst (Peers_Add ''r'' peers_pq) = Some 2 \<and>
   capacity (heap (snd (Peers_Add ''r'' peers_pq)) ! 2) = 0 \<and>
   wf peers_pq \<and>
   (\<exists>s'. run [Input ''hi'' [] ''m1'' 7, Iter ''p'' 0 True, Input ''ho'' [] ''m2'' 8] peers_pq = Inr s' \<and>
      list_all (\<lambda>c. capacity c = 0) (heap s') \<and>
      filter (\<lambda>e. \<exists>w r. e = Try 0 w r) (trace s') =
        [Try 0 hi Enqueued, Try 0 (hi\<lparr>ID := ''m2'', Body := ''ho'', Timestamp := 8\<rparr>) Dropped]) \<and>
   (\<exists>s1. broadcast hi peers_pq = Inr s1 \<and>
      trace s1 = trace peers_pq @ [Broadcast hi, Try 0 hi Enqueued, Try 1 hi Dropped]) \<and>
   \<not> closed (make_chan\<lparr>parked := True\<rparr>) \<and> capacity (make_chan\<lparr>parked := True\<rparr>) = 0 \<and>
   fst (trySend hi (make_chan\<lparr>parked := True\<rparr>)) = Enqueued \<and>
   fst (trySend hi (snd (trySend hi (make_chan\<lparr>parked := True\<rparr>)))) = Dropped \<and>
   fst (trySend hi make_chan) = Dropped"
proof -
  have a: "map_of (channels peers_pq) ''r'' = None" "length (heap peers_pq) = 2"
    "Peers_List peers_pq = [0, 1]" "parked (heap peers_pq ! 0)" "\<not> parked (heap peers_pq ! 1)"
    by (simp_all add: peers_pq_eval Peers_List_def)
  obtain s' where r:
    "run [Input ''hi'' [] ''m1'' 7, Iter ''p'' 0 True, Input ''ho'' [] ''m2'' 8] peers_pq = Inr s'"
    "filter (\<lambda>e. \<exists>w r. e = Try 0 w r) (trace s') =
        [Try 0 hi Enqueued, Try 0 (hi\<lparr>ID := ''m2'', Body := ''ho'', Timestamp := 8\<rparr>) Dropped]"
    by (simp add: peers_pq_eval startInputScanner_line_def eval_defs hi_def)
  have c: "\<not> closed (make_chan\<lparr>parked := True\<rparr>)" "capacity (make_chan\<lparr>parked := True\<rparr>) = 0"
    "\<not> closed make_chan" "capacity make_chan = 0" "\<not> parked make_chan" "parked (make_chan\<lparr>parked := True\<rparr>)"
    by (simp_all add: make_chan_def)
  note t0 = unbuffered_channel_drops_unless_dialer_waits [of peers_pq "''r''"
      "[Input ''hi'' [] ''m1'' 7, Iter ''p'' 0 True, Input ''ho'' [] ''m2'' 8]" s' hi
      "make_chan\<lparr>parked := True\<rparr>" hi]
  note t1 = unbuffered_channel_drops_unless_dialer_waits [of peers_pq "''r''" "[]" peers_pq hi make_chan hi]
  have p1: "fst (Peers_Add ''r'' peers_pq) = Some 2"
    "capacity (heap (snd (Peers_Add ''r'' peers_pq)) ! 2) = 0"
    using t0 a(1,2) by simp_all
  have p2: "list_all (\<lambda>c. capacity c = 0) (heap s')"
    using t0 wf_peers_pq r(1) by blast
  have p3: "\<exists>s1. broadcast hi peers_pq = Inr s1 \<and>
      trace s1 = trace peers_pq @ [Broadcast hi, Try 0 hi Enqueued, Try 1 hi Dropped]"
    using t0 wf_peers_pq a(3,4,5) by simp
  have p4: "fst (trySend hi (make_chan\<lparr>parked := True\<rparr>)) = Enqueued"
    "fst (trySend hi (snd (trySend hi (make_chan\<lparr>parked := True\<rparr>)))) = Dropped"
    using t0 c(1,2,6) by simp_all
  have p5: "fst (trySend hi make_chan) = Dropped"
    using t1 c(3,4,5) by simp
  show ?thesis
    using a(1) wf_peers_pq r p1 p2 p3 p4 p5 c(1,2) by blast
qed

section \<open>The serve loop\<close>

lemma SeenId_seenIds: "seenIds (snd (SeenId i s)) = (seenIds s)(i \<mapsto> True)"
  by (simp add: SeenId_def)

lemma more_emit: "node.more (emit e s) = node.more s"
  by (simp add: emit_def)

lemma more_SeenId: "node.more (snd (SeenId i s)) = node.more s"
  by (simp add: SeenId_def)

lemma Peers_List_frame:
  "Peers_List (emit e s) = Peers_List s" "Peers_List (snd (SeenId i s)) = Peers_List s"
  by (simp_all add: Peers_List_def)

lemma outcome_SeenId: "outcome (snd (SeenId i s)) ch = outcome s ch"
  by (simp add: outcome_def ready_at_def)

lemma serveIncoming_body_seen:
  assumes "fst (SeenId (ID w) s)"
  shows "serveIncoming_body w s = Inr (s\<lparr>seenIds := (seenIds s)(ID w \<mapsto> True)\<rparr>)"
  using assms by (simp add: serveIncoming_body_def split_def SeenId_def)

lemma serveIncoming_body_new:
  assumes "wf s" "\<not> fst (SeenId (ID w) s)"
  shows "serveIncoming_body w s =
    Inr (s\<lparr>seenIds := (seenIds s)(ID w \<mapsto> True),
           trace := trace s @ Display (nick (Addr w) s) (Body w) # Broadcast w #
                      map (\<lambda>ch. Try ch w (outcome s ch)) (Peers_List s) @ [GoDial (Addr w)],
           heap := map (\<lambda>ch. if ch \<in> set (Peers_List s) \<and> ready (heap s ! ch)
                               then (heap s ! ch)\<lparr>queue := queue (heap s ! ch) @ [w], parked := False\<rparr>
                               else heap s ! ch) [0..<length (heap s)]\<rparr>)"
proof -
  let ?s0 = "snd (SeenId (ID w) s)"
  let ?s1 = "emit (Display (nick (Addr w) ?s0) (Body w)) ?s0"
  have w1: "wf ?s1" using assms(1) by simp
  have n: "nick (Addr w) ?s0 = nick (Addr w) s"
    by (simp add: nick_def)
  have b: "broadcast w ?s1 =
    Inr (?s1\<lparr>trace := trace ?s1 @ Broadcast w # map (\<lambda>ch. Try ch w (outcome ?s1 ch)) (Peers_List ?s1),
           heap := map (\<lambda>ch. if ch \<in> set (Peers_List ?s1) then snd (trySend w (heap ?s1 ! ch))
                               else heap ?s1 ! ch) [0..<length (heap ?s1)]\<rparr>)"
    using w1 by (rule broadcast_spec)
  have nc: "\<And>ch. ch < length (heap s) \<Longrightarrow> \<not> closed (heap s ! ch)"
    using assms(1) by (simp add: wf_def list_all_length)
  have "serveIncoming_body w s =
    Inr (emit (GoDial (Addr w))
      (?s1\<lparr>trace := trace ?s1 @ Broadcast w # map (\<lambda>ch. Try ch w (outcome ?s1 ch)) (Peers_List ?s1),
           heap := map (\<lambda>ch. if ch \<in> set (Peers_List ?s1) then snd (trySend w (heap ?s1 ! ch))
                               else heap ?s1 ! ch) [0..<length (heap ?s1)]\<rparr>))"
  proof -
    have "serveIncoming_body w s =
      (case broadcast w ?s1 of Inl f \<Rightarrow> Inl f | Inr s2 \<Rightarrow> Inr (emit (GoDial (Addr w)) s2))"
      using assms(2) by (simp add: serveIncoming_body_def split_def Let_def)
    then show ?thesis by (simp only: b sum.case)
  qed
  also have "emit (GoDial (Addr w))
      (?s1\<lparr>trace := trace ?s1 @ Broadcast w # map (\<lambda>ch. Try ch w (outcome ?s1 ch)) (Peers_List ?s1),
           heap := map (\<lambda>ch. if ch \<in> set (Peers_List ?s1) then snd (trySend w (heap ?s1 ! ch))
                               else heap ?s1 ! ch) [0..<length (heap ?s1)]\<rparr>) =
    s\<lparr>seenIds := (seenIds s)(ID w \<mapsto> True),
           trace := trace s @ Display (nick (Addr w) s) (Body w) # Broadcast w #
                      map (\<lambda>ch. Try ch w (outcome s ch)) (Peers_List s) @ [GoDial (Addr w)],
           heap := map (\<lambda>ch. if ch \<in> set (Peers_List s) \<and> ready (heap s ! ch)
                               then (heap s ! ch)\<lparr>queue := queue (heap s ! ch) @ [w], parked := False\<rparr>
                               else heap s ! ch) [0..<length (heap s)]\<rparr>"
    by (intro node_eqI)
       (simp_all add: n nc trySend_effect SeenId_seenIds more_emit more_SeenId Peers_List_frame
          outcome_SeenId)
  finally show ?thesis .
qed

text \<open>
  Claim C5. For a decoded message whose id \<^verbatim>\<open>SeenId\<close> reports as seen, the loop body
  leaves the node as it was but for the mark in the cache: nothing printed, nothing
  broadcast, no dial, no channel touched. For one it reports as new, the body prints it,
  calls \<^verbatim>\<open>broadcast\<close>, which does one \<^verbatim>\<open>select\<close> per registered peer and puts the
  message on every channel that is ready, and then starts \<^verbatim>\<open>dial\<close> of the address in
  the message; the node after the body is exactly the one given. In both cases the body
  returns and the loop goes on with the rest of the stream.
\<close>

theorem serveIncoming_drops_seen_floods_new:
  "wf s \<Longrightarrow>
   (fst (SeenId (ID w) s) \<longrightarrow>
      serveIncoming_body w s = Inr (s\<lparr>seenIds := (seenIds s)(ID w \<mapsto> True)\<rparr>)) \<and>
   (\<not> fst (SeenId (ID w) s) \<longrightarrow>
      serveIncoming_body w s =
        Inr (s\<lparr>seenIds := (seenIds s)(ID w \<mapsto> True),
               trace := trace s @ Display (nick (Addr w) s) (Body w) # Broadcast w #
                          map (\<lambda>ch. Try ch w (outcome s ch)) (Peers_List s) @ [GoDial (Addr w)],
               heap := map (\<lambda>ch. if ch \<in> set (Peers_List s) \<and> ready (heap s ! ch)
                                   then (heap s ! ch)\<lparr>queue := queue (heap s ! ch) @ [w],
                                                       parked := False\<rparr>
                                   else heap s ! ch) [0..<length (heap s)]\<rparr>)) \<and>
   (\<exists>s1. serveIncoming_body (decode_into obj w0) s = Inr s1 \<and>
      serveIncoming_loop (Obj obj # rest) w0 s = serveIncoming_loop rest (decode_into obj w0) s1)"
proof -
  assume w: "wf s"
  have a: "fst (SeenId (ID w) s) \<longrightarrow>
      serveIncoming_body w s = Inr (s\<lparr>seenIds := (seenIds s)(ID w \<mapsto> True)\<rparr>)"
    using serveIncoming_body_seen [of w s] by blast
  have b: "\<not> fst (SeenId (ID w) s) \<longrightarrow>
      serveIncoming_body w s =
        Inr (s\<lparr>seenIds := (seenIds s)(ID w \<mapsto> True),
               trace := trace s @ Display (nick (Addr w) s) (Body w) # Broadcast w #
                          map (\<lambda>ch. Try ch w (outcome s ch)) (Peers_List s) @ [GoDial (Addr w)],
               heap := map (\<lambda>ch. if ch \<in> set (Peers_List s) \<and> ready (heap s ! ch)
                                   then (heap s ! ch)\<lparr>queue := queue (heap s ! ch) @ [w],
                                                       parked := False\<rparr>
                                   else heap s ! ch) [0..<length (heap s)]\<rparr>)"
    using serveIncoming_body_new [OF w, of w] by blast
  obtain s1 where s1: "serveIncoming_body (decode_into obj w0) s = Inr s1"
    using serveIncoming_body_frame [OF w, of "decode_into obj w0"] by blast
  then have c: "\<exists>s1. serveIncoming_body (decode_into obj w0) s = Inr s1 \<and>
      serveIncoming_loop (Obj obj # rest) w0 s = serveIncoming_loop rest (decode_into obj w0) s1"
    by simp
  show ?thesis
    by (rule conjI [OF a conjI [OF b c]])
qed

theorem serveIncoming_drops_seen_floods_new_witness:
  "wf peers_pq \<and> \<not> fst (SeenId (ID hi) peers_pq) \<and>
   (\<exists>s'. serveIncoming_body hi peers_pq = Inr s' \<and>
      trace s' = trace peers_pq @
        [Display ''[you]'' ''hi'', Broadcast hi, Try 0 hi Enqueued, Try 1 hi Dropped, GoDial ''n''] \<and>
      map queue (heap s') = [[hi], []] \<and> map parked (heap s') = [False, False] \<and>
      channels s' = channels peers_pq \<and>
      wf s' \<and> fst (SeenId (ID hi) s') \<and> serveIncoming_body hi s' = Inr s') \<and>
   (\<exists>s1. serveIncoming_body (decode_into one zero_whisper) peers_pq = Inr s1 \<and>
      serveIncoming_loop [Obj one, DecodeError] zero_whisper peers_pq =
        serveIncoming_loop [DecodeError] (decode_into one zero_whisper) s1)"
proof -
  have a: "\<not> fst (SeenId (ID hi) peers_pq)" "Peers_List peers_pq = [0, 1]"
    "outcome peers_pq 0 = Enqueued" "outcome peers_pq (Suc 0) = Dropped"
    "Addr hi = ''n''" "Body hi = ''hi''"
    "nick ''n'' peers_pq = ''[you]''" "length (heap peers_pq) = 2"
    "ready (heap peers_pq ! 0)" "\<not> ready (heap peers_pq ! Suc 0)"
    "queue (heap peers_pq ! 0) = []" "queue (heap peers_pq ! Suc 0) = []"
    "\<not> parked (heap peers_pq ! Suc 0)"
    by (simp_all add: peers_pq_eval hi_def SeenId_def Peers_List_def outcome_def ready_at_def
        ready_def nick_def)
  have u: "[0..<length (heap peers_pq)] = [0, 1]"
    by (simp add: peers_pq_eval)
  note t0 = serveIncoming_drops_seen_floods_new [OF wf_peers_pq, of hi one zero_whisper "[DecodeError]"]
  define s' where "s' = peers_pq\<lparr>seenIds := (seenIds peers_pq)(ID hi \<mapsto> True),
               trace := trace peers_pq @ Display (nick (Addr hi) peers_pq) (Body hi) # Broadcast hi #
                          map (\<lambda>ch. Try ch hi (outcome peers_pq ch)) (Peers_List peers_pq) @
                          [GoDial (Addr hi)],
               heap := map (\<lambda>ch. if ch \<in> set (Peers_List peers_pq) \<and> ready (heap peers_pq ! ch)
                                   then (heap peers_pq ! ch)\<lparr>queue := queue (heap peers_pq ! ch) @ [hi],
                                                       parked := False\<rparr>
                                   else heap peers_pq ! ch) [0..<length (heap peers_pq)]\<rparr>"
  have s': "serveIncoming_body hi peers_pq = Inr s'"
    unfolding s'_def using t0 a(1) by blast
  have f: "trace s' = trace peers_pq @
        [Display ''[you]'' ''hi'', Broadcast hi, Try 0 hi Enqueued, Try 1 hi Dropped, GoDial ''n'']"
     "seenIds s' = (seenIds peers_pq)(ID hi \<mapsto> True)"
     "map queue (heap s') = [[hi], []]" "map parked (heap s') = [False, False]"
     "channels s' = channels peers_pq"
    unfolding s'_def u by (simp_all add: a)
  have w': "wf s'"
    using serveIncoming_body_frame [OF wf_peers_pq, of hi] s' by simp
  have seen: "fst (SeenId (ID hi) s')"
    using f(2) by (simp add: SeenId_def)
  note t1 = serveIncoming_drops_seen_floods_new [OF w', of hi one zero_whisper "[]"]
  have "(seenIds s')(ID hi \<mapsto> True) = seenIds s'"
    using f(2) by simp
  then have again: "serveIncoming_body hi s' = Inr s'"
    using t1 seen by simp
  have first: "\<exists>s'. serveIncoming_body hi peers_pq = Inr s' \<and>
      trace s' = trace peers_pq @
        [Display ''[you]'' ''hi'', Broadcast hi, Try 0 hi Enqueued, Try 1 hi Dropped, GoDial ''n''] \<and>
      map queue (heap s') = [[hi], []] \<and> map parked (heap s') = [False, False] \<and>
      channels s' = channels peers_pq \<and>
      wf s' \<and> fst (SeenId (ID hi) s') \<and> serveIncoming_body hi s' = Inr s'"
    by (rule exI [of _ s']) (simp add: s' f(1,3,4,5) w' seen again)
  have loop: "\<exists>s1. serveIncoming_body (decode_into one zero_whisper) peers_pq = Inr s1 \<and>
      serveIncoming_loop [Obj one, DecodeError] zero_whisper peers_pq =
        serveIncoming_loop [DecodeError] (decode_into one zero_whisper) s1"
    using t0 by blast
  show ?thesis
    by (rule conjI [OF wf_peers_pq conjI [OF a(1) conjI [OF first loop]]])
qed

text \<open>
  Claim C10. \<^verbatim>\<open>Decode\<close> writes into the one variable \<^verbatim>\<open>whisper\<close> of the loop, so a
  field that an object leaves out keeps the value of the message before. On the stream
  of an object with id \<open>m1\<close> and body \<open>one\<close> followed by an object without id and with
  body \<open>two\<close>, the second message is taken to have id \<open>m1\<close> and is discarded: only the
  first is printed and broadcast. With an id of its own the second is printed too.
\<close>

theorem decode_reuses_record_and_drops_message_without_id:
  "ID (decode_into (obj\<lparr>jID := None\<rparr>) w) = ID w \<and>
   Addr (decode_into (obj\<lparr>jAddr := None\<rparr>) w) = Addr w \<and>
   Body (decode_into (obj\<lparr>jBody := None\<rparr>) w) = Body w \<and>
   Timestamp (decode_into (obj\<lparr>jTimestamp := None\<rparr>) w) = Timestamp w \<and>
   decode_into two_no_id (decode_into one zero_whisper) =
     \<lparr>ID = ''m1'', Addr = ''p'', Body = ''two'', Timestamp = 2\<rparr> \<and>
   (\<exists>s'. serveIncoming (Some (''p'', [Obj one, Obj two_no_id])) (init ''n'') = Inr s' \<and>
      trace s' = [Display ''[p]'' ''one'', Broadcast (decode_into one zero_whisper), GoDial ''p'',
                  ConnClosed ''p'', Status ''Closed connection to'' ''p'']) \<and>
   (\<exists>s'. serveIncoming (Some (''p'', [Obj one, Obj (two_no_id\<lparr>jID := Some ''m2''\<rparr>)])) (init ''n'') = Inr s' \<and>
      filter (\<lambda>e. \<exists>a b. e = Display a b) (trace s') = [Display ''[p]'' ''one'', Display ''[p]'' ''two''])"
  by (simp add: decode_into_def one_def two_no_id_def zero_whisper_def serveIncoming_def
      init_def serveIncoming_body_def SeenId_def broadcast_def Peers_List_def emit_def nick_def
      split_def Let_def)

section \<open>A message that comes back\<close>

lemma handleCommand_seenIds: "handleCommand parts s = Inr s' \<Longrightarrow> seenIds s' = seenIds s"
  by (auto simp: handleCommand_def setNick_def split: list.splits if_splits)

lemma startInputScanner_line_seenIds:
  assumes "wf s" "startInputScanner_line txt parts uid now s = Inr s'"
  shows "seenIds s' = seenIds s"
proof -
  consider "length txt = 0" | "length txt \<noteq> 0" "take 1 txt = ''/''"
    | "length txt \<noteq> 0" "take 1 txt \<noteq> ''/''" by blast
  then show ?thesis
  proof cases
    case 1
    then show ?thesis using assms by (simp add: startInputScanner_line_def)
  next
    case 2
    then have "handleCommand parts s = Inr s'"
      using assms(2) by (simp add: startInputScanner_line_def)
    then show ?thesis by (rule handleCommand_seenIds)
  next
    case 3
    then have "broadcast \<lparr>ID = uid, Addr = localAddr s, Body = txt, Timestamp = now\<rparr> s = Inr s'"
      using assms(2) by (simp add: startInputScanner_line_def)
    then show ?thesis
      using broadcast_frame [OF assms(1), of "\<lparr>ID = uid, Addr = localAddr s, Body = txt, Timestamp = now\<rparr>"]
      by auto
  qed
qed

lemma Peers_Add_seenIds: "seenIds (snd (Peers_Add addr s)) = seenIds s"
  by (simp add: Peers_Add_def Let_def split: option.splits)

lemma dial_seenIds: "seenIds (snd (dial addr c s)) = seenIds s"
  using Peers_Add_seenIds [of addr s]
  by (cases "Peers_Add addr s") (auto simp: dial_def Let_def split: option.splits)

lemma dial_iter_seenIds: "seenIds (snd (dial_iter addr ch e s)) = seenIds s"
proof (cases "ch < length (heap s)")
  case False
  then show ?thesis by (simp add: dial_iter_def)
next
  case True
  obtain r c where rc: "chan_recv (heap s ! ch) = (r, c)" by (cases "chan_recv (heap s ! ch)")
  show ?thesis
    using True rc by (cases r) (auto simp: dial_iter_def Let_def dial_exit_def)
qed

lemma serveIncoming_body_marks:
  assumes "wf s" "serveIncoming_body w s = Inr s'"
  shows "seenIds s' = (seenIds s)(ID w \<mapsto> True)"
proof (cases "fst (SeenId (ID w) s)")
  case True
  then show ?thesis using assms(2) serveIncoming_body_seen [of w s] by auto
next
  case False
  then show ?thesis using assms(2) serveIncoming_body_new [OF assms(1), of w] by auto
qed

lemma step_keeps_seen:
  assumes "wf s" "step a s = Inr s'" "seenIds s i = Some True"
  shows "seenIds s' i = Some True"
proof (cases a)
  case (Input ln parts uid now)
  then show ?thesis
    using assms startInputScanner_line_seenIds [of s ln parts uid now s'] by simp
next
  case (Served w)
  then show ?thesis using assms serveIncoming_body_marks [of s w s'] by simp
next
  case (Dial addr c)
  then show ?thesis using assms dial_seenIds [of addr c s] by auto
next
  case (Iter addr ch e)
  then show ?thesis using assms dial_iter_seenIds [of addr ch e s] by auto
qed

lemma run_keeps_seen:
  "wf s \<Longrightarrow> run acts s = Inr s' \<Longrightarrow> seenIds s i = Some True \<Longrightarrow> seenIds s' i = Some True"
proof (induction acts arbitrary: s)
  case Nil
  then show ?case by simp
next
  case (Cons a acts)
  from Cons.prems(2) obtain s1 where s1: "step a s = Inr s1" "run acts s1 = Inr s'"
    by (auto split: sum.splits)
  have w1: "wf s1"
    using step_frame [OF Cons.prems(1) s1(1)] by simp
  have k1: "seenIds s1 i = Some True"
    using Cons.prems(1) s1(1) Cons.prems(3) by (rule step_keeps_seen)
  show ?case
    using w1 s1(2) k1 by (rule Cons.IH)
qed

lemma serveIncoming_body_again:
  assumes "seenIds s (ID w) = Some True"
  shows "serveIncoming_body w s = Inr s"
proof -
  have "fst (SeenId (ID w) s)" using assms by (simp add: SeenId_def)
  moreover have "s\<lparr>seenIds := (seenIds s)(ID w \<mapsto> True)\<rparr> = s"
    using assms by (simp add: map_upd_triv)
  ultimately show ?thesis using serveIncoming_body_seen [of w s] by simp
qed

text \<open>
  Node \<open>n\<close>, with a dialer waiting on its link to \<open>p\<close>, sends the line \<open>hi\<close> under id
  \<open>m1\<close>, and the copy that \<open>p\<close> floods back is decoded by \<open>n\<close>: \<open>n\<close> calls
  \<^verbatim>\<open>broadcast\<close> for the message twice and prints it once, under the label \<open>you\<close>.
  Node \<open>p\<close>, with a dialer waiting on its link to \<open>n\<close>, puts the message it received
  on the channel to \<open>n\<close>.
\<close>

theorem origin_broadcasts_twice:
  "count_list (trace_of (run [Input ''hi'' [] ''m1'' 7, Served hi] peers_pq)) (Broadcast hi) = 2 \<and>
   count_list (trace_of (run [Input ''hi'' [] ''m1'' 7, Served hi] peers_pq)) (Display ''[you]'' ''hi'') = 1 \<and>
   map_of (channels peer_p) ''n'' = Some 0 \<and>
   count_list (trace_of (serveIncoming_body hi peer_p)) (Try 0 hi Enqueued) = 1"
  by (simp add: peers_pq_eval peer_p_def startInputScanner_line_def eval_defs hi_def trace_of_def)

text \<open>
  Claim C2, as the code has it. \<^verbatim>\<open>startInputScanner\<close> broadcasts a typed message
  once and leaves the dedup cache as it is. A message with the node's own address that
  comes in from the wire under an id not yet in the cache is handled as any new message
  and printed under the label \<open>you\<close>. And once \<^verbatim>\<open>serveIncoming\<close> has handled a message,
  then in every later state of the node a message with the same id is dropped and leaves
  the node exactly as it is: a node prints and floods a message from the wire at most
  once.
\<close>

theorem wire_copy_flooded_once_own_copy_shown_as_you:
  "wf s \<Longrightarrow>
   (txt \<noteq> [] \<and> take 1 txt \<noteq> ''/'' \<longrightarrow>
      startInputScanner_line txt parts uid now s =
        Inr (s\<lparr>trace := trace s @
                 Broadcast \<lparr>ID = uid, Addr = localAddr s, Body = txt, Timestamp = now\<rparr> #
                 map (\<lambda>ch. Try ch \<lparr>ID = uid, Addr = localAddr s, Body = txt, Timestamp = now\<rparr>
                               (outcome s ch)) (Peers_List s),
               heap := map (\<lambda>ch. if ch \<in> set (Peers_List s)
                                   then snd (trySend \<lparr>ID = uid, Addr = localAddr s, Body = txt,
                                                       Timestamp = now\<rparr> (heap s ! ch))
                                   else heap s ! ch) [0..<length (heap s)]\<rparr>)) \<and>
   (seenIds s (ID w) = None \<and> Addr w = localAddr s \<longrightarrow>
      serveIncoming_body w s =
        Inr (s\<lparr>seenIds := (seenIds s)(ID w \<mapsto> True),
               trace := trace s @ Display ''[you]'' (Body w) # Broadcast w #
                          map (\<lambda>ch. Try ch w (outcome s ch)) (Peers_List s) @ [GoDial (localAddr s)],
               heap := map (\<lambda>ch. if ch \<in> set (Peers_List s) \<and> ready (heap s ! ch)
                                   then (heap s ! ch)\<lparr>queue := queue (heap s ! ch) @ [w],
                                                       parked := False\<rparr>
                                   else heap s ! ch) [0..<length (heap s)]\<rparr>)) \<and>
   (serveIncoming_body w s = Inr s1 \<and> run acts s1 = Inr s2 \<and> ID w' = ID w \<longrightarrow>
      serveIncoming_body w' s2 = Inr s2)"
proof -
  assume w: "wf s"
  have a: "txt \<noteq> [] \<and> take 1 txt \<noteq> ''/'' \<longrightarrow>
      startInputScanner_line txt parts uid now s =
        Inr (s\<lparr>trace := trace s @
                 Broadcast \<lparr>ID = uid, Addr = localAddr s, Body = txt, Timestamp = now\<rparr> #
                 map (\<lambda>ch. Try ch \<lparr>ID = uid, Addr = localAddr s, Body = txt, Timestamp = now\<rparr>
                               (outcome s ch)) (Peers_List s),
               heap := map (\<lambda>ch. if ch \<in> set (Peers_List s)
                                   then snd (trySend \<lparr>ID = uid, Addr = localAddr s, Body = txt,
                                                       Timestamp = now\<rparr> (heap s ! ch))
                                   else heap s ! ch) [0..<length (heap s)]\<rparr>)"
    using broadcast_spec [OF w, of "\<lparr>ID = uid, Addr = localAddr s, Body = txt, Timestamp = now\<rparr>"]
    by (simp add: startInputScanner_line_def)
  have b: "seenIds s (ID w) = None \<and> Addr w = localAddr s \<longrightarrow>
      serveIncoming_body w s =
        Inr (s\<lparr>seenIds := (seenIds s)(ID w \<mapsto> True),
               trace := trace s @ Display ''[you]'' (Body w) # Broadcast w #
                          map (\<lambda>ch. Try ch w (outcome s ch)) (Peers_List s) @ [GoDial (localAddr s)],
               heap := map (\<lambda>ch. if ch \<in> set (Peers_List s) \<and> ready (heap s ! ch)
                                   then (heap s ! ch)\<lparr>queue := queue (heap s ! ch) @ [w],
                                                       parked := False\<rparr>
                                   else heap s ! ch) [0..<length (heap s)]\<rparr>)"
  proof
    assume h: "seenIds s (ID w) = None \<and> Addr w = localAddr s"
    then have n: "\<not> fst (SeenId (ID w) s)" "nick (Addr w) s = ''[you]''"
      by (simp_all add: SeenId_def nick_def)
    show "serveIncoming_body w s =
        Inr (s\<lparr>seenIds := (seenIds s)(ID w \<mapsto> True),
               trace := trace s @ Display ''[you]'' (Body w) # Broadcast w #
                          map (\<lambda>ch. Try ch w (outcome s ch)) (Peers_List s) @ [GoDial (localAddr s)],
               heap := map (\<lambda>ch. if ch \<in> set (Peers_List s) \<and> ready (heap s ! ch)
                                   then (heap s ! ch)\<lparr>queue := queue (heap s ! ch) @ [w],
                                                       parked := False\<rparr>
                                   else heap s ! ch) [0..<length (heap s)]\<rparr>)"
      using serveIncoming_body_new [OF w n(1)] n(2) h by simp
  qed
  have c: "serveIncoming_body w s = Inr s1 \<and> run acts s1 = Inr s2 \<and> ID w' = ID w \<longrightarrow>
      serveIncoming_body w' s2 = Inr s2"
  proof
    assume h: "serveIncoming_body w s = Inr s1 \<and> run acts s1 = Inr s2 \<and> ID w' = ID w"
    have m: "seenIds s1 (ID w) = Some True"
      using serveIncoming_body_marks [OF w, of w s1] h by simp
    have w1: "wf s1"
      using serveIncoming_body_frame [OF w, of w] h by auto
    have "seenIds s2 (ID w) = Some True"
      using run_keeps_seen [OF w1 _ m, of acts s2] h by simp
    then show "serveIncoming_body w' s2 = Inr s2"
      using h serveIncoming_body_again [of s2 w'] by simp
  qed
  show ?thesis
    by (rule conjI [OF a conjI [OF b c]])
qed

theorem wire_copy_flooded_once_own_copy_shown_as_you_witness:
  "wf peers_pq \<and> ''hi'' \<noteq> [] \<and> take 1 ''hi'' \<noteq> ''/'' \<and>
   (\<exists>sa sb s2. startInputScanner_line ''hi'' [] ''m1'' 7 peers_pq = Inr sa \<and>
      wf sa \<and> seenIds sa (ID hi) = None \<and> Addr hi = localAddr sa \<and>
      serveIncoming_body hi sa = Inr sb \<and>
      Display ''[you]'' ''hi'' \<in> set (trace sb) \<and>
      run [Iter ''p'' 0 True] sb = Inr s2 \<and>
      serveIncoming_body hi s2 = Inr s2)"
proof -
  have m: "\<lparr>ID = ''m1'', Addr = localAddr peers_pq, Body = ''hi'', Timestamp = 7\<rparr> = hi"
    "seenIds peers_pq (ID hi) = None" "Addr hi = localAddr peers_pq" "Body hi = ''hi''"
    by (simp_all add: peers_pq_eval hi_def)
  have x: "''hi'' \<noteq> []" "take 1 ''hi'' \<noteq> ''/''"
    by simp_all
  define sa where "sa = peers_pq\<lparr>trace := trace peers_pq @ Broadcast hi #
                 map (\<lambda>ch. Try ch hi (outcome peers_pq ch)) (Peers_List peers_pq),
               heap := map (\<lambda>ch. if ch \<in> set (Peers_List peers_pq)
                                   then snd (trySend hi (heap peers_pq ! ch))
                                   else heap peers_pq ! ch) [0..<length (heap peers_pq)]\<rparr>"
  note t0 = wire_copy_flooded_once_own_copy_shown_as_you [OF wf_peers_pq,
      of "''hi''" "[]" "''m1''" 7 hi sa "[]" sa hi]
  have a: "startInputScanner_line ''hi'' [] ''m1'' 7 peers_pq = Inr sa"
    unfolding sa_def using t0 x m(1) by simp
  have wa: "wf sa"
    using startInputScanner_line_frame [OF wf_peers_pq a] by simp
  have fa: "seenIds sa (ID hi) = None" "Addr hi = localAddr sa"
    using m(2,3) by (simp_all add: sa_def)
  define sb where "sb = sa\<lparr>seenIds := (seenIds sa)(ID hi \<mapsto> True),
               trace := trace sa @ Display ''[you]'' (Body hi) # Broadcast hi #
                          map (\<lambda>ch. Try ch hi (outcome sa ch)) (Peers_List sa) @ [GoDial (localAddr sa)],
               heap := map (\<lambda>ch. if ch \<in> set (Peers_List sa) \<and> ready (heap sa ! ch)
                                   then (heap sa ! ch)\<lparr>queue := queue (heap sa ! ch) @ [hi],
                                                       parked := False\<rparr>
                                   else heap sa ! ch) [0..<length (heap sa)]\<rparr>"
  define s2 where "s2 = snd (dial_iter ''p'' 0 True sb)"
  note t1 = wire_copy_flooded_once_own_copy_shown_as_you [OF wa,
      of "''hi''" "[]" "''m1''" 7 hi sb "[Iter ''p'' 0 True]" s2 hi]
  have b: "serveIncoming_body hi sa = Inr sb"
    unfolding sb_def using t1 fa by blast
  have d: "Display ''[you]'' ''hi'' \<in> set (trace sb)"
    by (simp add: sb_def m(4))
  have r: "run [Iter ''p'' 0 True] sb = Inr s2"
    by (simp add: s2_def)
  have c: "serveIncoming_body hi s2 = Inr s2"
    using t1 b r by blast
  have "\<exists>sa sb s2. startInputScanner_line ''hi'' [] ''m1'' 7 peers_pq = Inr sa \<and>
      wf sa \<and> seenIds sa (ID hi) = None \<and> Addr hi = localAddr sa \<and>
      serveIncoming_body hi sa = Inr sb \<and>
      Display ''[you]'' ''hi'' \<in> set (trace sb) \<and>
      run [Iter ''p'' 0 True] sb = Inr s2 \<and>
      serveIncoming_body hi s2 = Inr s2"
    by (rule exI [of _ sa], rule exI [of _ sb], rule exI [of _ s2]) (intro conjI a wa fa b d r c)
  then show ?thesis
    using wf_peers_pq x by simp
qed

section \<open>Errors of the listener and of peer connections\<close>






end
